theory Spec2Isabelle
  imports Complex_Main "HOL-Library.Word"
begin

section \<open>Oil PVT functions: the data\<close>

subsection \<open>Numbers\<close>

text \<open>
  A \<open>double\<close> is a finite value or one of the IEEE special values. Only comparison and
  absolute value are used by the code under study; the arithmetic of unit conversion and
  of interpolation belongs to collaborators and is not modelled here.
\<close>

datatype double = Finite real | PlusInf | MinusInf | NaN

text \<open>\<open>std::abs\<close> on a double.\<close>

fun std_abs :: "double \<Rightarrow> double" where
  "std_abs (Finite x) = Finite \<bar>x\<bar>"
| "std_abs PlusInf = PlusInf"
| "std_abs MinusInf = PlusInf"
| "std_abs NaN = NaN"

text \<open>The built-in \<open><\<close> on doubles: false whenever an operand is not a number.\<close>

fun dless :: "double \<Rightarrow> double \<Rightarrow> bool" where
  "dless (Finite x) (Finite y) = (x < y)"
| "dless (Finite x) PlusInf = True"
| "dless MinusInf (Finite y) = True"
| "dless MinusInf PlusInf = True"
| "dless _ _ = False"

text \<open>The built-in \<open><=\<close> on doubles.\<close>

fun dle :: "double \<Rightarrow> double \<Rightarrow> bool" where
  "dle (Finite x) (Finite y) = (x \<le> y)"
| "dle (Finite x) PlusInf = True"
| "dle MinusInf (Finite y) = True"
| "dle MinusInf PlusInf = True"
| "dle PlusInf PlusInf = True"
| "dle MinusInf MinusInf = True"
| "dle _ _ = False"

text \<open>
  \<open>std::vector<double>::size_type\<close>: an unsigned 64-bit integer whose arithmetic
  wraps around.
\<close>

type_synonym SizeType = "64 word"

text \<open>\<open>std::to_string\<close> on an unsigned integer: its decimal digits.\<close>

definition digit_char :: "nat \<Rightarrow> char" where
  "digit_char d = ''0123456789'' ! d"

function to_string :: "nat \<Rightarrow> string" where
  "to_string n = (if n < 10 then [digit_char n] else to_string (n div 10) @ [digit_char (n mod 10)])"
  by pat_completeness auto
termination
  by (relation "measure (\<lambda>n. n)") auto

declare to_string.simps [simp del]

subsection \<open>Failures\<close>

text \<open>
  A call of the code either returns, or throws, or has no defined behaviour.
  \<open>invalid_argument m\<close> is a \<open>std::invalid_argument\<close> whose \<open>what()\<close> is \<open>m\<close>;
  \<open>other_exception\<close> is any exception that a handler for \<open>std::invalid_argument\<close> does
  not catch; \<open>assertion_failed\<close> is a failed \<open>assert\<close> in a build that checks assertions;
  \<open>undefined_behaviour\<close> is a read through an iterator, index or pointer that does not
  designate an element, or a \<open>delete\<close> of an object of a derived class through a pointer
  to a base class whose destructor is not virtual. Running out of memory is not modelled:
  \<open>new\<close>, \<open>reserve\<close> and \<open>push_back\<close> always succeed. In particular the
  \<open>std::length_error\<close> of a \<open>reserve\<close> for more than \<open>max_size()\<close> elements is not
  modelled; the two calls of \<open>reserve\<close> in the code ask for \<open>numTables\<close> and for
  \<open>numPrimary\<close> elements, which is no more than \<open>primaryKey\<close> already holds unless a
  size product of the table wraps around (\<open>reserve_requests_fit\<close>).
\<close>

datatype failure =
    invalid_argument string
  | other_exception string
  | assertion_failed string
  | undefined_behaviour

subsection \<open>The raw table\<close>

text \<open>
  Modelled from the spec: \<open>ECLPropTableRawData\<close> is declared in \<open>ECLPropTable.hpp\<close>, which
  is not part of the sources at hand. The fields are those the code reads; the four counts
  have the vector's size type.
\<close>

record ECLPropTableRawData =
  data :: "double list"
  primaryKey :: "double list"
  numPrimary :: SizeType
  numRows :: SizeType
  numCols :: SizeType
  numTables :: SizeType

subsection \<open>Unit conversion\<close>

type_synonym Converter = "double \<Rightarrow> double"

text \<open>
  Modelled from the spec: \<open>ECLPVT::ConvertUnits\<close> (from \<open>ECLPvtCommon.hpp\<close>) pairs the
  converter of the independent variable with the converters of the dependent columns.
\<close>

record ConvertUnits =
  indep :: Converter
  column :: "Converter list"

subsection \<open>Curves\<close>

text \<open>
  Modelled from the spec: the enumeration \<open>ECLPVT::RawCurve\<close> and the type
  \<open>FlowDiagnostics::Graph\<close>, a pair of columns, are declared in headers that are not
  part of the sources at hand. The code names the enumerator \<open>SaturatedState\<close> only.
\<close>

datatype RawCurve = FVF | Viscosity | SaturatedState

type_synonym Graph = "double list \<times> double list"

subsection \<open>The interpolants\<close>

text \<open>
  Modelled from the spec: \<open>ECLPVT::PVTx\<close> (from \<open>ECLPvtCommon.hpp\<close>) is built from the
  outer key and the inner interpolants, one per key node, and keeps both.
\<close>

record 'sti PVTx =
  key :: "double list"
  propInterp :: "'sti list"

text \<open>
  The classes \<open>DeadOil\<close> and \<open>LiveOil\<close>, both derived from \<open>PVxOBase\<close>: a dead oil
  function holds the member \<open>interpolant_\<close>, a live oil function the member \<open>interp_\<close>.
\<close>

datatype ('pvdx, 'sti) PVxOBase = DeadOil 'pvdx | LiveOil "'sti PVTx"

subsection \<open>The collaborators\<close>

text \<open>
  The unit system registry, the one-dimensional interpolants and the evaluation of the
  tabulated functions are code of other files. They are parameters of the model: \<open>'u\<close> is
  the type of unit systems, \<open>'pvdx\<close> the type \<open>ECLPVT::PVDx\<close>, and \<open>'sti\<close> the type of
  the inner interpolant of a live oil table. A constructor that is handed iterators into
  the raw table is handed the table and the number of the sub-table here.
\<close>

record ('u, 'pvdx, 'sti) collaborators =
  createUnitSystem :: "int \<Rightarrow> failure + 'u"
  ToSI_pressure :: "'u \<Rightarrow> Converter"
  ToSI_recipFvf :: "'u \<Rightarrow> Converter"
  ToSI_recipFvfVisc :: "'u \<Rightarrow> Converter"
  ToSI_recipFvfDerivPress :: "'u \<Rightarrow> Converter"
  ToSI_recipFvfViscDerivPress :: "'u \<Rightarrow> Converter"
  ToSI_disGas :: "'u \<Rightarrow> Converter"
  PVDx_ctor :: "ECLPropTableRawData \<Rightarrow> nat \<Rightarrow> ConvertUnits \<Rightarrow> failure + 'pvdx"
  PVDx_formationVolumeFactor :: "'pvdx \<Rightarrow> double list \<Rightarrow> failure + double list"
  PVDx_viscosity :: "'pvdx \<Rightarrow> double list \<Rightarrow> failure + double list"
  PVDx_getPvtCurve :: "'pvdx \<Rightarrow> RawCurve \<Rightarrow> failure + Graph"
  StI_ctor :: "ECLPropTableRawData \<Rightarrow> nat \<Rightarrow> Converter \<Rightarrow> Converter list \<Rightarrow> failure + 'sti"
  StI_invalid :: "'sti"
  PVTx_formationVolumeFactor ::
    "'sti PVTx \<Rightarrow> double list \<Rightarrow> double list \<Rightarrow> failure + double list"
  PVTx_viscosity ::
    "'sti PVTx \<Rightarrow> double list \<Rightarrow> double list \<Rightarrow> failure + double list"
  PVTx_getPvtCurve :: "'sti PVTx \<Rightarrow> RawCurve \<Rightarrow> failure + Graph list"

section \<open>Oil PVT functions: the operations\<close>

subsection \<open>Unit converters\<close>

text \<open>The converters of a dead oil table: \<open>[ Po, 1/B, 1/(B*mu), d(1/B)/dPo, d(1/(B*mu))/dPo ]\<close>.\<close>

definition deadOilUnitConverter_usys ::
  "('u, 'pvdx, 'sti) collaborators \<Rightarrow> 'u \<Rightarrow> ConvertUnits" where
  "deadOilUnitConverter_usys ext usys =
     \<lparr> indep = ToSI_pressure ext usys,
       column = [ToSI_recipFvf ext usys, ToSI_recipFvfVisc ext usys,
                 ToSI_recipFvfDerivPress ext usys, ToSI_recipFvfViscDerivPress ext usys] \<rparr>"

definition deadOilUnitConverter ::
  "('u, 'pvdx, 'sti) collaborators \<Rightarrow> int \<Rightarrow> failure + ConvertUnits" where
  "deadOilUnitConverter ext usys =
     (case createUnitSystem ext usys of
        Inl e \<Rightarrow> Inl e
      | Inr u \<Rightarrow> Inr (deadOilUnitConverter_usys ext u))"

definition liveOilUnitConverter ::
  "('u, 'pvdx, 'sti) collaborators \<Rightarrow> int \<Rightarrow> failure + (Converter \<times> ConvertUnits)" where
  "liveOilUnitConverter ext usys =
     (case createUnitSystem ext usys of
        Inl e \<Rightarrow> Inl e
      | Inr u \<Rightarrow> Inr (ToSI_disGas ext u, deadOilUnitConverter_usys ext u))"

subsection \<open>One interpolant per sub-table\<close>

text \<open>Calling a constructor on each element in turn; the first failure ends the run.\<close>

fun collect :: "('a \<Rightarrow> failure + 'b) \<Rightarrow> 'a list \<Rightarrow> failure + 'b list" where
  "collect f [] = Inr []"
| "collect f (x # xs) =
     (case f x of
        Inl e \<Rightarrow> Inl e
      | Inr y \<Rightarrow> (case collect f xs of Inl e \<Rightarrow> Inl e | Inr ys \<Rightarrow> Inr (y # ys)))"

text \<open>
  Modelled from the spec: \<open>MakeInterpolants::fromRawData\<close> is defined in a header that is
  not part of the sources at hand. It calls the factory once for each of the
  \<open>numPrimary * numTables\<close> sub-tables of the raw table, in storage order, and returns the
  interpolants in that order.
\<close>

definition fromRawData ::
  "ECLPropTableRawData \<Rightarrow> (nat \<Rightarrow> failure + 'i) \<Rightarrow> failure + 'i list" where
  "fromRawData raw factory =
     collect factory [0 ..< unat (numPrimary raw * numTables raw)]"

subsection \<open>Dead oil\<close>

definition createDeadOil ::
  "('u, 'pvdx, 'sti) collaborators \<Rightarrow> ECLPropTableRawData \<Rightarrow> int
     \<Rightarrow> failure + ('pvdx, 'sti) PVxOBase list" where
  "createDeadOil ext raw usys =
     (if numPrimary raw \<noteq> 1
      then Inl (assertion_failed ''Can't Create Dead Oil Function From Live Oil Table'')
      else case deadOilUnitConverter ext usys of
             Inl e \<Rightarrow> Inl e
           | Inr cvrt \<Rightarrow>
               fromRawData raw
                 (\<lambda>i. case PVDx_ctor ext raw i cvrt of
                         Inl e \<Rightarrow> Inl e
                       | Inr interpolant \<Rightarrow> Inr (DeadOil interpolant)))"

subsection \<open>Live oil\<close>

text \<open>
  The loop of \<open>extractPrimaryKey\<close>, with iterators as positions in \<open>primaryKey\<close>. The
  iterators \<open>begin\<close> and \<open>end\<close> of the source are \<open>begin_it\<close> and \<open>end_it\<close>; the source
  tests that they differ, and \<open>begin_it\<close> never exceeds \<open>end_it\<close>.
\<close>

function extractPrimaryKey_loop ::
  "double list \<Rightarrow> Converter \<Rightarrow> nat \<Rightarrow> nat \<Rightarrow> double list \<Rightarrow> double list" where
  "extractPrimaryKey_loop pk cvrtKey begin_it end_it k =
     (if begin_it < end_it
      then extractPrimaryKey_loop pk cvrtKey (Suc begin_it) end_it
             (if dless (std_abs (pk ! begin_it)) (Finite (10 ^ 20))
              then k @ [cvrtKey (pk ! begin_it)] else k)
      else k)"
  by pat_completeness auto
termination
  by (relation "measure (\<lambda>(pk, cvrtKey, begin_it, end_it, k). end_it - begin_it)") auto

declare extractPrimaryKey_loop.simps [simp del]

text \<open>
  Both iterators must lie within \<open>primaryKey\<close>; the product
  \<open>t * numPrimary\<close> is computed in the size type. The call \<open>key.reserve(numPrimary)\<close>
  that precedes the loop sets capacity aside and is left out; its \<open>std::length_error\<close>
  for a count above \<open>max_size()\<close> is not modelled.
\<close>

definition extractPrimaryKey ::
  "ECLPropTableRawData \<Rightarrow> SizeType \<Rightarrow> Converter \<Rightarrow> failure + double list" where
  "extractPrimaryKey raw t cvrtKey =
     (let begin_it = unat ((t + 0) * numPrimary raw);
          end_it = begin_it + unat (numPrimary raw)
      in if end_it \<le> length (primaryKey raw)
         then Inr (extractPrimaryKey_loop (primaryKey raw) cvrtKey begin_it end_it [])
         else Inl undefined_behaviour)"

text \<open>
  The factory of the inner interpolants: a \<open>std::invalid_argument\<close> of the constructor is
  caught and the interpolant is replaced by the one that \<open>StI(Extrap{})\<close> builds.
\<close>

definition liveOilFactory ::
  "('u, 'pvdx, 'sti) collaborators \<Rightarrow> (Converter \<times> ConvertUnits) \<Rightarrow> ECLPropTableRawData
     \<Rightarrow> nat \<Rightarrow> failure + 'sti" where
  "liveOilFactory ext cvrt raw i =
     (case StI_ctor ext raw i (indep (snd cvrt)) (column (snd cvrt)) of
        Inl (invalid_argument m) \<Rightarrow> Inr (StI_invalid ext)
      | Inl e \<Rightarrow> Inl e
      | Inr s \<Rightarrow> Inr s)"

text \<open>
  The loop of \<open>createLiveOil\<close> over the tables. The inner interpolants of table \<open>t\<close> are
  taken from positions \<open>begin_it\<close> up to \<open>end_it\<close> (\<open>begin\<close> and \<open>end\<close> in the source) of
  \<open>sti\<close>, which must lie within it.
\<close>

function createLiveOil_loop ::
  "ECLPropTableRawData \<Rightarrow> Converter \<Rightarrow> 'sti list \<Rightarrow> SizeType
     \<Rightarrow> ('pvdx, 'sti) PVxOBase list \<Rightarrow> failure + ('pvdx, 'sti) PVxOBase list" where
  "createLiveOil_loop raw cvrtKey sti t ret =
     (if t < numTables raw
      then case extractPrimaryKey raw t cvrtKey of
             Inl e \<Rightarrow> Inl e
           | Inr k \<Rightarrow>
               (let begin_it = unat ((t + 0) * numPrimary raw);
                    end_it = begin_it + length k
                in if end_it \<le> length sti
                   then createLiveOil_loop raw cvrtKey sti (t + 1)
                          (ret @ [LiveOil \<lparr> key = k,
                                            propInterp = take (end_it - begin_it) (drop begin_it sti) \<rparr>])
                   else Inl undefined_behaviour)
      else Inr ret)"
  by pat_completeness auto
termination
proof (relation "measure (\<lambda>(raw, cvrtKey, sti, t, ret). unat (numTables raw - t))")
  show "wf (measure (\<lambda>(raw, cvrtKey, sti, t, ret). unat (numTables raw - t)))"
    by simp
next
  fix raw :: ECLPropTableRawData and cvrtKey :: Converter and sti :: "'sti list"
    and t :: SizeType and ret :: "('pvdx, 'sti) PVxOBase list"
    and x2 xa xb
  assume lt: "t < numTables raw"
  have "numTables raw - t \<noteq> 0"
    using lt by simp
  then have "unat (numTables raw - t - 1) < unat (numTables raw - t)"
    by (rule measure_unat)
  then have "unat (numTables raw - (t + 1)) < unat (numTables raw - t)"
    by (simp add: diff_diff_eq)
  then show "((raw, cvrtKey, sti, t + 1,
        ret @ [LiveOil \<lparr>key = x2, propInterp = take (xb - xa) (drop xa sti)\<rparr>]),
       raw, cvrtKey, sti, t, ret)
      \<in> measure (\<lambda>(raw, cvrtKey, sti, t, ret). unat (numTables raw - t))"
    by simp
qed

declare createLiveOil_loop.simps [simp del]

text \<open>
  \<open>createLiveOil\<close> looks up the unit system, builds the inner interpolants of all
  sub-tables, then runs the loop from \<open>0 * numTables\<close>. Its first statement,
  \<open>ret.reserve(numTables)\<close>, sets capacity aside and is left out; its
  \<open>std::length_error\<close> for a count above \<open>max_size()\<close>, which would come before the
  unit system is looked up, is not modelled.
\<close>

definition createLiveOil ::
  "('u, 'pvdx, 'sti) collaborators \<Rightarrow> ECLPropTableRawData \<Rightarrow> int
     \<Rightarrow> failure + ('pvdx, 'sti) PVxOBase list" where
  "createLiveOil ext raw usys =
     (case liveOilUnitConverter ext usys of
        Inl e \<Rightarrow> Inl e
      | Inr cvrt \<Rightarrow>
          (case fromRawData raw (liveOilFactory ext cvrt raw) of
             Inl e \<Rightarrow> Inl e
           | Inr sti \<Rightarrow> createLiveOil_loop raw (fst cvrt) sti (0 * numTables raw) []))"

subsection \<open>Validation and dispatch\<close>

definition createPVTFunction ::
  "('u, 'pvdx, 'sti) collaborators \<Rightarrow> ECLPropTableRawData \<Rightarrow> int
     \<Rightarrow> failure + ('pvdx, 'sti) PVxOBase list" where
  "createPVTFunction ext raw usys =
     (if numPrimary raw = 0
      then Inl (invalid_argument ''Oil PVT Table Without Primary Lookup Key'')
      else if numCols raw \<noteq> 5
      then Inl (invalid_argument ''PVT Table for Oil Must Have Five Columns'')
      else if length (primaryKey raw) \<noteq> unat (numPrimary raw * numTables raw)
      then Inl (invalid_argument ''Size Mismatch in RS Nodes of PVT Table for Oil'')
      else if length (data raw)
                \<noteq> unat (numPrimary raw * numRows raw * numCols raw * numTables raw)
      then Inl (invalid_argument
                  ''Size Mismatch in Condensed Table Data of PVT Table for Oil'')
      else if numPrimary raw = 1
      then createDeadOil ext raw usys
      else createLiveOil ext raw usys)"

subsection \<open>Evaluating one function\<close>

definition DeadOil_formationVolumeFactor ::
  "('u, 'pvdx, 'sti) collaborators \<Rightarrow> 'pvdx \<Rightarrow> double list \<Rightarrow> double list
     \<Rightarrow> failure + double list" where
  "DeadOil_formationVolumeFactor ext interpolant rs po =
     PVDx_formationVolumeFactor ext interpolant po"

definition DeadOil_viscosity ::
  "('u, 'pvdx, 'sti) collaborators \<Rightarrow> 'pvdx \<Rightarrow> double list \<Rightarrow> double list
     \<Rightarrow> failure + double list" where
  "DeadOil_viscosity ext interpolant rs po = PVDx_viscosity ext interpolant po"

definition DeadOil_getPvtCurve ::
  "('u, 'pvdx, 'sti) collaborators \<Rightarrow> 'pvdx \<Rightarrow> RawCurve \<Rightarrow> failure + Graph list" where
  "DeadOil_getPvtCurve ext interpolant curve =
     (case PVDx_getPvtCurve ext interpolant curve of
        Inl e \<Rightarrow> Inl e
      | Inr g \<Rightarrow> Inr [g])"

definition LiveOil_formationVolumeFactor ::
  "('u, 'pvdx, 'sti) collaborators \<Rightarrow> 'sti PVTx \<Rightarrow> double list \<Rightarrow> double list
     \<Rightarrow> failure + double list" where
  "LiveOil_formationVolumeFactor ext interp rs po =
     PVTx_formationVolumeFactor ext interp rs po"

definition LiveOil_viscosity ::
  "('u, 'pvdx, 'sti) collaborators \<Rightarrow> 'sti PVTx \<Rightarrow> double list \<Rightarrow> double list
     \<Rightarrow> failure + double list" where
  "LiveOil_viscosity ext interp rs po = PVTx_viscosity ext interp rs po"

definition LiveOil_getPvtCurve ::
  "('u, 'pvdx, 'sti) collaborators \<Rightarrow> 'sti PVTx \<Rightarrow> RawCurve \<Rightarrow> failure + Graph list" where
  "LiveOil_getPvtCurve ext interp curve = PVTx_getPvtCurve ext interp curve"

text \<open>
  The private member \<open>LiveOil::repackagePvtCurve\<close>: for the saturated state curve the two
  columns of every graph change places.
\<close>

definition repackagePvtCurve :: "Graph list \<Rightarrow> RawCurve \<Rightarrow> Graph list" where
  "repackagePvtCurve graphs curve =
     (if curve \<noteq> SaturatedState then graphs
      else map (\<lambda>graph. (snd graph, fst graph)) graphs)"

text \<open>The virtual calls through \<open>PVxOBase\<close>.\<close>

fun PVxO_formationVolumeFactor ::
  "('u, 'pvdx, 'sti) collaborators \<Rightarrow> ('pvdx, 'sti) PVxOBase \<Rightarrow> double list \<Rightarrow> double list
     \<Rightarrow> failure + double list" where
  "PVxO_formationVolumeFactor ext (DeadOil interpolant) rs po =
     DeadOil_formationVolumeFactor ext interpolant rs po"
| "PVxO_formationVolumeFactor ext (LiveOil interp) rs po =
     LiveOil_formationVolumeFactor ext interp rs po"

fun PVxO_viscosity ::
  "('u, 'pvdx, 'sti) collaborators \<Rightarrow> ('pvdx, 'sti) PVxOBase \<Rightarrow> double list \<Rightarrow> double list
     \<Rightarrow> failure + double list" where
  "PVxO_viscosity ext (DeadOil interpolant) rs po = DeadOil_viscosity ext interpolant rs po"
| "PVxO_viscosity ext (LiveOil interp) rs po = LiveOil_viscosity ext interp rs po"

fun PVxO_getPvtCurve ::
  "('u, 'pvdx, 'sti) collaborators \<Rightarrow> ('pvdx, 'sti) PVxOBase \<Rightarrow> RawCurve
     \<Rightarrow> failure + Graph list" where
  "PVxO_getPvtCurve ext (DeadOil interpolant) curve = DeadOil_getPvtCurve ext interpolant curve"
| "PVxO_getPvtCurve ext (LiveOil interp) curve = LiveOil_getPvtCurve ext interp curve"

section \<open>The region catalogue and its handle\<close>

subsection \<open>Objects and who owns them\<close>

text \<open>
  The evaluators of a catalogue are reached through owning pointers, the catalogue
  (\<open>Oil::Impl\<close>) through the owning pointer of its handle (\<open>Oil\<close>). The members
  \<open>eval_\<close>, \<open>rhoS_\<close> and \<open>pImpl_\<close> are the fields \<open>Impl_eval\<close>, \<open>Impl_rhoS\<close> and
  \<open>Oil_pImpl\<close>. The store maps an address to the object that lives there; \<open>new\<close> takes
  the next unused address, \<open>delete\<close> of a catalogue removes it. A null pointer is \<open>None\<close>.
\<close>

type_synonym addr = nat

record Impl =
  Impl_eval :: "addr list"
  Impl_rhoS :: "double list"

record Oil =
  Oil_pImpl :: "addr option"

record ('pvdx, 'sti) store =
  pvxo_at :: "addr \<Rightarrow> ('pvdx, 'sti) PVxOBase option"
  impl_at :: "addr \<Rightarrow> Impl option"
  oil_at :: "addr \<Rightarrow> Oil option"
  brk :: addr

definition new_pvxo ::
  "('pvdx, 'sti) store \<Rightarrow> ('pvdx, 'sti) PVxOBase \<Rightarrow> ('pvdx, 'sti) store \<times> addr" where
  "new_pvxo st m =
     (st\<lparr> pvxo_at := (pvxo_at st)(brk st \<mapsto> m), brk := Suc (brk st) \<rparr>, brk st)"

definition new_impl :: "('pvdx, 'sti) store \<Rightarrow> Impl \<Rightarrow> ('pvdx, 'sti) store \<times> addr" where
  "new_impl st i =
     (st\<lparr> impl_at := (impl_at st)(brk st \<mapsto> i), brk := Suc (brk st) \<rparr>, brk st)"

text \<open>
  The evaluators that \<open>createPVTFunction\<close> returns are placed in the store in their order
  when the catalogue takes them over.
\<close>

fun new_pvxos ::
  "('pvdx, 'sti) store \<Rightarrow> ('pvdx, 'sti) PVxOBase list \<Rightarrow> ('pvdx, 'sti) store \<times> addr list" where
  "new_pvxos st [] = (st, [])"
| "new_pvxos st (m # ms) =
     (case new_pvxo st m of
        (st1, p) \<Rightarrow> (case new_pvxos st1 ms of (st2, ps) \<Rightarrow> (st2, p # ps)))"

text \<open>\<open>DeadOil::clone\<close> and \<open>LiveOil::clone\<close>, called through a pointer.\<close>

definition PVxO_clone ::
  "('pvdx, 'sti) store \<Rightarrow> addr \<Rightarrow> failure + (('pvdx, 'sti) store \<times> addr)" where
  "PVxO_clone st p =
     (case pvxo_at st p of
        None \<Rightarrow> Inl undefined_behaviour
      | Some (DeadOil interpolant) \<Rightarrow> Inr (new_pvxo st (DeadOil interpolant))
      | Some (LiveOil interp) \<Rightarrow> Inr (new_pvxo st (LiveOil interp)))"

text \<open>The free function \<open>clone\<close> on a vector of owning pointers.\<close>

fun clone ::
  "('pvdx, 'sti) store \<Rightarrow> addr list \<Rightarrow> failure + (('pvdx, 'sti) store \<times> addr list)" where
  "clone st [] = Inr (st, [])"
| "clone st (p # src) =
     (case PVxO_clone st p of
        Inl e \<Rightarrow> Inl e
      | Inr (st1, q) \<Rightarrow>
          (case clone st1 src of
             Inl e \<Rightarrow> Inl e
           | Inr (st2, dest) \<Rightarrow> Inr (st2, q # dest)))"

subsection \<open>The catalogue\<close>

definition Impl_ctor ::
  "('u, 'pvdx, 'sti) collaborators \<Rightarrow> ('pvdx, 'sti) store \<Rightarrow> ECLPropTableRawData \<Rightarrow> int
     \<Rightarrow> double list \<Rightarrow> failure + (('pvdx, 'sti) store \<times> Impl)" where
  "Impl_ctor ext st raw usys rhoS =
     (case createPVTFunction ext raw usys of
        Inl e \<Rightarrow> Inl e
      | Inr ms \<Rightarrow>
          (case new_pvxos st ms of
             (st1, ps) \<Rightarrow> Inr (st1, \<lparr> Impl_eval = ps, Impl_rhoS = rhoS \<rparr>)))"

definition Impl_copy_ctor ::
  "('pvdx, 'sti) store \<Rightarrow> Impl \<Rightarrow> failure + (('pvdx, 'sti) store \<times> Impl)" where
  "Impl_copy_ctor st rhs =
     (case clone st (Impl_eval rhs) of
        Inl e \<Rightarrow> Inl e
      | Inr (st1, ps) \<Rightarrow> Inr (st1, \<lparr> Impl_eval = ps, Impl_rhoS = Impl_rhoS rhs \<rparr>))"

text \<open>
  The destructor of an owning pointer to \<open>PVxOBase\<close> deletes the evaluator through that
  pointer. \<open>PVxOBase\<close> declares no destructor, so its destructor is not virtual, and every
  evaluator is a \<open>DeadOil\<close> or a \<open>LiveOil\<close>: the static type of the deleted object differs
  from its dynamic type, and the \<open>delete\<close> has no defined behaviour, whichever evaluator
  it meets.
\<close>

definition delete_pvxo :: "('pvdx, 'sti) store \<Rightarrow> addr \<Rightarrow> failure + ('pvdx, 'sti) store" where
  "delete_pvxo st p =
     (case pvxo_at st p of
        None \<Rightarrow> Inl undefined_behaviour
      | Some (DeadOil interpolant) \<Rightarrow> Inl undefined_behaviour
      | Some (LiveOil interp) \<Rightarrow> Inl undefined_behaviour)"

text \<open>The destructor of the vector \<open>eval_\<close> destroys its owning pointers in turn.\<close>

fun delete_pvxos ::
  "('pvdx, 'sti) store \<Rightarrow> addr list \<Rightarrow> failure + ('pvdx, 'sti) store" where
  "delete_pvxos st [] = Inr st"
| "delete_pvxos st (p # ps) =
     (case delete_pvxo st p of
        Inl e \<Rightarrow> Inl e
      | Inr st1 \<Rightarrow> delete_pvxos st1 ps)"

text \<open>
  \<open>delete\<close> of a catalogue: its implicit destructor destroys \<open>eval_\<close>, and with it every
  evaluator that the catalogue owns; then the catalogue is gone. Only a catalogue without
  evaluators is destroyed without a \<open>delete\<close> through \<open>PVxOBase\<close>.
\<close>

definition delete_impl :: "('pvdx, 'sti) store \<Rightarrow> addr \<Rightarrow> failure + ('pvdx, 'sti) store" where
  "delete_impl st a =
     (case impl_at st a of
        None \<Rightarrow> Inl undefined_behaviour
      | Some i \<Rightarrow>
          (case delete_pvxos st (Impl_eval i) of
             Inl e \<Rightarrow> Inl e
           | Inr st1 \<Rightarrow> Inr (st1\<lparr> impl_at := (impl_at st1)(a := None) \<rparr>)))"

text \<open>
  The range check. A vector's size fits the size type, so \<open>region >= size()\<close> compares the
  numbers themselves; \<open>size() - 1\<close> is computed in the size type.
\<close>

definition validateRegIdx :: "Impl \<Rightarrow> SizeType \<Rightarrow> failure + unit" where
  "validateRegIdx i region =
     (if length (Impl_eval i) \<le> unat region
      then Inl (invalid_argument
                  (''Region Index '' @ to_string (unat region) @
                   '' Outside Valid Range (0 .. '' @
                   to_string (unat ((of_nat (length (Impl_eval i)) :: SizeType) - 1)) @ '')''))
      else Inr ())"

definition Impl_formationVolumeFactor ::
  "('u, 'pvdx, 'sti) collaborators \<Rightarrow> ('pvdx, 'sti) store \<Rightarrow> Impl \<Rightarrow> SizeType
     \<Rightarrow> double list \<Rightarrow> double list \<Rightarrow> failure + double list" where
  "Impl_formationVolumeFactor ext st i region rs po =
     (case validateRegIdx i region of
        Inl e \<Rightarrow> Inl e
      | Inr _ \<Rightarrow>
          (case pvxo_at st (Impl_eval i ! unat region) of
             None \<Rightarrow> Inl undefined_behaviour
           | Some m \<Rightarrow> PVxO_formationVolumeFactor ext m rs po))"

definition Impl_viscosity ::
  "('u, 'pvdx, 'sti) collaborators \<Rightarrow> ('pvdx, 'sti) store \<Rightarrow> Impl \<Rightarrow> SizeType
     \<Rightarrow> double list \<Rightarrow> double list \<Rightarrow> failure + double list" where
  "Impl_viscosity ext st i region rs po =
     (case validateRegIdx i region of
        Inl e \<Rightarrow> Inl e
      | Inr _ \<Rightarrow>
          (case pvxo_at st (Impl_eval i ! unat region) of
             None \<Rightarrow> Inl undefined_behaviour
           | Some m \<Rightarrow> PVxO_viscosity ext m rs po))"

text \<open>The density is read from \<open>Impl_rhoS\<close> by the unchecked \<open>operator[]\<close>.\<close>

definition Impl_surfaceMassDensity :: "Impl \<Rightarrow> SizeType \<Rightarrow> failure + double" where
  "Impl_surfaceMassDensity i region =
     (case validateRegIdx i region of
        Inl e \<Rightarrow> Inl e
      | Inr _ \<Rightarrow>
          (if unat region < length (Impl_rhoS i)
           then Inr (Impl_rhoS i ! unat region)
           else Inl undefined_behaviour))"

definition Impl_getPvtCurve ::
  "('u, 'pvdx, 'sti) collaborators \<Rightarrow> ('pvdx, 'sti) store \<Rightarrow> Impl \<Rightarrow> SizeType
     \<Rightarrow> RawCurve \<Rightarrow> failure + Graph list" where
  "Impl_getPvtCurve ext st i region curve =
     (case validateRegIdx i region of
        Inl e \<Rightarrow> Inl e
      | Inr _ \<Rightarrow>
          (case pvxo_at st (Impl_eval i ! unat region) of
             None \<Rightarrow> Inl undefined_behaviour
           | Some m \<Rightarrow> PVxO_getPvtCurve ext m curve))"

subsection \<open>The handle\<close>

text \<open>
  An \<open>Oil\<close> object is named by the address \<open>this\<close> at which it lives. Following \<open>Oil_pImpl\<close>
  needs a living handle, a pointer that is not null, and a living catalogue.
\<close>

definition Oil_impl :: "('pvdx, 'sti) store \<Rightarrow> addr \<Rightarrow> failure + Impl" where
  "Oil_impl st this =
     (case oil_at st this of
        None \<Rightarrow> Inl undefined_behaviour
      | Some oil \<Rightarrow>
          (case Oil_pImpl oil of
             None \<Rightarrow> Inl undefined_behaviour
           | Some a \<Rightarrow>
               (case impl_at st a of
                  None \<Rightarrow> Inl undefined_behaviour
                | Some i \<Rightarrow> Inr i)))"

definition Oil_ctor ::
  "('u, 'pvdx, 'sti) collaborators \<Rightarrow> ('pvdx, 'sti) store \<Rightarrow> addr \<Rightarrow> ECLPropTableRawData
     \<Rightarrow> int \<Rightarrow> double list \<Rightarrow> failure + ('pvdx, 'sti) store" where
  "Oil_ctor ext st this raw usys rhoS =
     (case Impl_ctor ext st raw usys rhoS of
        Inl e \<Rightarrow> Inl e
      | Inr (st1, i) \<Rightarrow>
          (case new_impl st1 i of
             (st2, a) \<Rightarrow> Inr (st2\<lparr> oil_at := (oil_at st2)(this \<mapsto> \<lparr> Oil_pImpl = Some a \<rparr>) \<rparr>)))"

definition Oil_dtor :: "('pvdx, 'sti) store \<Rightarrow> addr \<Rightarrow> failure + ('pvdx, 'sti) store" where
  "Oil_dtor st this =
     (case oil_at st this of
        None \<Rightarrow> Inl undefined_behaviour
      | Some oil \<Rightarrow>
          (case Oil_pImpl oil of
             None \<Rightarrow> Inr (st\<lparr> oil_at := (oil_at st)(this := None) \<rparr>)
           | Some a \<Rightarrow>
               (case delete_impl st a of
                  Inl e \<Rightarrow> Inl e
                | Inr st1 \<Rightarrow> Inr (st1\<lparr> oil_at := (oil_at st1)(this := None) \<rparr>))))"

definition Oil_copy_ctor ::
  "('pvdx, 'sti) store \<Rightarrow> addr \<Rightarrow> addr \<Rightarrow> failure + ('pvdx, 'sti) store" where
  "Oil_copy_ctor st this rhs =
     (case Oil_impl st rhs of
        Inl e \<Rightarrow> Inl e
      | Inr i \<Rightarrow>
          (case Impl_copy_ctor st i of
             Inl e \<Rightarrow> Inl e
           | Inr (st1, j) \<Rightarrow>
               (case new_impl st1 j of
                  (st2, a) \<Rightarrow>
                    Inr (st2\<lparr> oil_at := (oil_at st2)(this \<mapsto> \<lparr> Oil_pImpl = Some a \<rparr>) \<rparr>))))"

definition Oil_move_ctor ::
  "('pvdx, 'sti) store \<Rightarrow> addr \<Rightarrow> addr \<Rightarrow> failure + ('pvdx, 'sti) store" where
  "Oil_move_ctor st this rhs =
     (case oil_at st rhs of
        None \<Rightarrow> Inl undefined_behaviour
      | Some oil \<Rightarrow>
          Inr (st\<lparr> oil_at := ((oil_at st)(rhs \<mapsto> \<lparr> Oil_pImpl = None \<rparr>))(this \<mapsto> oil) \<rparr>))"

text \<open>
  \<open>pImpl_.reset(p)\<close>: the handle takes the pointer \<open>p\<close>, then the catalogue it held before
  is destroyed.
\<close>

definition pImpl_reset ::
  "('pvdx, 'sti) store \<Rightarrow> addr \<Rightarrow> addr option \<Rightarrow> failure + ('pvdx, 'sti) store" where
  "pImpl_reset st this p =
     (case oil_at st this of
        None \<Rightarrow> Inl undefined_behaviour
      | Some oil \<Rightarrow>
          (let st1 = st\<lparr> oil_at := (oil_at st)(this \<mapsto> \<lparr> Oil_pImpl = p \<rparr>) \<rparr>
           in case Oil_pImpl oil of
                None \<Rightarrow> Inr st1
              | Some old \<Rightarrow> delete_impl st1 old))"

definition Oil_copy_assign ::
  "('pvdx, 'sti) store \<Rightarrow> addr \<Rightarrow> addr \<Rightarrow> failure + ('pvdx, 'sti) store" where
  "Oil_copy_assign st this rhs =
     (case Oil_impl st rhs of
        Inl e \<Rightarrow> Inl e
      | Inr i \<Rightarrow>
          (case Impl_copy_ctor st i of
             Inl e \<Rightarrow> Inl e
           | Inr (st1, j) \<Rightarrow>
               (case new_impl st1 j of
                  (st2, a) \<Rightarrow> pImpl_reset st2 this (Some a))))"

text \<open>
  Move assignment of the owning pointer: the source releases its pointer and becomes
  null, then the target is reset to the released pointer.
\<close>

definition Oil_move_assign ::
  "('pvdx, 'sti) store \<Rightarrow> addr \<Rightarrow> addr \<Rightarrow> failure + ('pvdx, 'sti) store" where
  "Oil_move_assign st this rhs =
     (case oil_at st rhs of
        None \<Rightarrow> Inl undefined_behaviour
      | Some oil \<Rightarrow>
          pImpl_reset (st\<lparr> oil_at := (oil_at st)(rhs \<mapsto> \<lparr> Oil_pImpl = None \<rparr>) \<rparr>)
            this (Oil_pImpl oil))"

text \<open>The public queries take the region as an \<open>int\<close>, which is converted to the size type.\<close>

definition Oil_formationVolumeFactor ::
  "('u, 'pvdx, 'sti) collaborators \<Rightarrow> ('pvdx, 'sti) store \<Rightarrow> addr \<Rightarrow> 32 word
     \<Rightarrow> double list \<Rightarrow> double list \<Rightarrow> failure + double list" where
  "Oil_formationVolumeFactor ext st this region rs po =
     (case Oil_impl st this of
        Inl e \<Rightarrow> Inl e
      | Inr i \<Rightarrow> Impl_formationVolumeFactor ext st i (scast region) rs po)"

definition Oil_viscosity ::
  "('u, 'pvdx, 'sti) collaborators \<Rightarrow> ('pvdx, 'sti) store \<Rightarrow> addr \<Rightarrow> 32 word
     \<Rightarrow> double list \<Rightarrow> double list \<Rightarrow> failure + double list" where
  "Oil_viscosity ext st this region rs po =
     (case Oil_impl st this of
        Inl e \<Rightarrow> Inl e
      | Inr i \<Rightarrow> Impl_viscosity ext st i (scast region) rs po)"

definition Oil_surfaceMassDensity ::
  "('pvdx, 'sti) store \<Rightarrow> addr \<Rightarrow> 32 word \<Rightarrow> failure + double" where
  "Oil_surfaceMassDensity st this region =
     (case Oil_impl st this of
        Inl e \<Rightarrow> Inl e
      | Inr i \<Rightarrow> Impl_surfaceMassDensity i (scast region))"

definition Oil_getPvtCurve ::
  "('u, 'pvdx, 'sti) collaborators \<Rightarrow> ('pvdx, 'sti) store \<Rightarrow> addr \<Rightarrow> RawCurve \<Rightarrow> 32 word
     \<Rightarrow> failure + Graph list" where
  "Oil_getPvtCurve ext st this curve region =
     (case Oil_impl st this of
        Inl e \<Rightarrow> Inl e
      | Inr i \<Rightarrow> Impl_getPvtCurve ext st i (scast region) curve)"

section \<open>Tables to compute with\<close>

text \<open>
  An instance of the collaborators, on which every definition above can be evaluated. A
  unit system is its code; pressures of the metric system (code 1) are scaled by \<open>10\<^sup>5\<close>;
  an interpolant is the list of the converted pressure nodes of its sub-table that are not
  sentinels, and a sub-table without such a node is rejected with a
  \<open>std::invalid_argument\<close>. The evaluation functions stand for no interpolation scheme:
  they only make different tables give different answers.
\<close>

fun dscale :: "real \<Rightarrow> Converter" where
  "dscale c (Finite x) = Finite (c * x)"
| "dscale c d = d"

definition sample_nodes :: "ECLPropTableRawData \<Rightarrow> nat \<Rightarrow> double list" where
  "sample_nodes raw i =
     filter (\<lambda>x. dless (std_abs x) (Finite (10 ^ 20)))
       (take (unat (numRows raw)) (drop (i * unat (numRows raw)) (data raw)))"

definition sample_ext :: "(int, double list, double list) collaborators" where
  "sample_ext =
     \<lparr> createUnitSystem =
         (\<lambda>usys. if usys \<in> {1, 2, 3, 4} then Inr usys
                  else Inl (other_exception ''Unsupported Unit Convention'')),
       ToSI_pressure = (\<lambda>u. dscale (if u = 1 then 100000 else 1)),
       ToSI_recipFvf = (\<lambda>u. dscale 1),
       ToSI_recipFvfVisc = (\<lambda>u. dscale 1),
       ToSI_recipFvfDerivPress = (\<lambda>u. dscale 1),
       ToSI_recipFvfViscDerivPress = (\<lambda>u. dscale 1),
       ToSI_disGas = (\<lambda>u. dscale 1),
       PVDx_ctor =
         (\<lambda>raw i cvrt. if sample_nodes raw i = []
                        then Inl (invalid_argument ''No Valid Table Nodes'')
                        else Inr (map (indep cvrt) (sample_nodes raw i))),
       PVDx_formationVolumeFactor = (\<lambda>d po. Inr (map (\<lambda>p. hd d) po)),
       PVDx_viscosity = (\<lambda>d po. Inr (map (\<lambda>p. last d) po)),
       PVDx_getPvtCurve = (\<lambda>d curve. Inr (d, d)),
       StI_ctor =
         (\<lambda>raw i cx cy. if sample_nodes raw i = []
                         then Inl (invalid_argument ''No Valid Table Nodes'')
                         else Inr (map cx (sample_nodes raw i))),
       StI_invalid = [],
       PVTx_formationVolumeFactor = (\<lambda>l rs po. Inr (map (\<lambda>p. hd (key l)) po)),
       PVTx_viscosity = (\<lambda>l rs po. Inr (map (\<lambda>p. last (key l)) po)),
       PVTx_getPvtCurve =
         (\<lambda>l curve. Inr (case curve of
                            SaturatedState \<Rightarrow> [(key l, concat (map (take 1) (propInterp l)))]
                          | _ \<Rightarrow> map (\<lambda>s. (key l, s)) (propInterp l))) \<rparr>"

text \<open>A dead oil table of one region with two pressure nodes.\<close>

definition dead_table :: ECLPropTableRawData where
  "dead_table =
     \<lparr> data = [Finite 100, Finite 300, Finite 1, Finite 0.9, Finite 1, Finite 1.1,
               Finite 0, Finite (- 5), Finite 0, Finite 5],
       primaryKey = [Finite 0],
       numPrimary = 1, numRows = 2, numCols = 5, numTables = 1 \<rparr>"

text \<open>
  A live oil table of one region with room for three gas ratio nodes, the last of them
  unused; the second sub-table has no pressure node.
\<close>

definition live_table :: ECLPropTableRawData where
  "live_table =
     \<lparr> data = [Finite 100, Finite (10 ^ 21), Finite 300,
               Finite 1, Finite 1, Finite 1, Finite 1, Finite 1, Finite 1,
               Finite 0, Finite 0, Finite 0, Finite 0, Finite 0, Finite 0],
       primaryKey = [Finite 0, Finite 50, Finite (10 ^ 21)],
       numPrimary = 3, numRows = 1, numCols = 5, numTables = 1 \<rparr>"

section \<open>What the claims speak of\<close>

text \<open>The slice of \<open>primaryKey\<close> that belongs to table \<open>t\<close>.\<close>

definition primaryKey_slice :: "ECLPropTableRawData \<Rightarrow> SizeType \<Rightarrow> double list" where
  "primaryKey_slice raw t =
     take (unat (numPrimary raw)) (drop (unat (t * numPrimary raw)) (primaryKey raw))"

text \<open>
  What the four checks of \<open>createPVTFunction\<close> test, with the size products computed in
  the size type as the code computes them, and the messages of the checks that fail, in
  the order of the checks.
\<close>

definition invariant_violated :: "ECLPropTableRawData \<Rightarrow> bool" where
  "invariant_violated raw \<longleftrightarrow>
     numPrimary raw = 0
     \<or> numCols raw \<noteq> 5
     \<or> length (primaryKey raw) \<noteq> unat (numPrimary raw * numTables raw)
     \<or> length (data raw) \<noteq> unat (numPrimary raw * numRows raw * numCols raw * numTables raw)"

definition violation_messages :: "ECLPropTableRawData \<Rightarrow> string list" where
  "violation_messages raw =
     (if numPrimary raw = 0 then [''Oil PVT Table Without Primary Lookup Key''] else []) @
     (if numCols raw \<noteq> 5 then [''PVT Table for Oil Must Have Five Columns''] else []) @
     (if length (primaryKey raw) \<noteq> unat (numPrimary raw * numTables raw)
      then [''Size Mismatch in RS Nodes of PVT Table for Oil''] else []) @
     (if length (data raw) \<noteq> unat (numPrimary raw * numRows raw * numCols raw * numTables raw)
      then [''Size Mismatch in Condensed Table Data of PVT Table for Oil''] else [])"

text \<open>
  The four invariants of the raw table in the words of the specification: the sizes of
  the two arrays are the products of the counts, taken in the natural numbers.
\<close>

definition invariant_violated_exact :: "ECLPropTableRawData \<Rightarrow> bool" where
  "invariant_violated_exact raw \<longleftrightarrow>
     unat (numPrimary raw) = 0
     \<or> unat (numCols raw) \<noteq> 5
     \<or> length (primaryKey raw) \<noteq> unat (numPrimary raw) * unat (numTables raw)
     \<or> length (data raw)
           \<noteq> unat (numPrimary raw) * unat (numRows raw) * unat (numCols raw)
               * unat (numTables raw)"

text \<open>The store before anything is built.\<close>

definition empty_store :: "('pvdx, 'sti) store" where
  "empty_store = \<lparr> pvxo_at = (\<lambda>a. None), impl_at = (\<lambda>a. None), oil_at = (\<lambda>a. None), brk = 0 \<rparr>"

text \<open>
  A live oil table whose counts announce two key slots for each of \<open>2\<^sup>6\<^sup>3\<close> tables, while
  both arrays are empty: the products of the counts are \<open>2\<^sup>6\<^sup>4\<close> and \<open>10 * 2\<^sup>6\<^sup>3\<close>, which the
  size type reduces to 0. \<open>unused_table\<close> is a dead oil table of one region whose only
  pressure node is a sentinel.
\<close>

definition wrapped_table :: ECLPropTableRawData where
  "wrapped_table =
     \<lparr> data = [], primaryKey = [],
       numPrimary = 2, numRows = 1, numCols = 5, numTables = 2 ^ 63 \<rparr>"

definition unused_table :: ECLPropTableRawData where
  "unused_table =
     \<lparr> data = [Finite (10 ^ 21), Finite 1, Finite 1, Finite 0, Finite 0],
       primaryKey = [Finite 0],
       numPrimary = 1, numRows = 1, numCols = 5, numTables = 1 \<rparr>"

text \<open>A table without any region.\<close>

definition empty_table :: ECLPropTableRawData where
  "empty_table =
     \<lparr> data = [], primaryKey = [],
       numPrimary = 1, numRows = 2, numCols = 5, numTables = 0 \<rparr>"

text \<open>
  The key of table \<open>j\<close> as the claims describe it: the converted entries of the slice that
  are not sentinels. \<open>live_model\<close> is the function that the claims expect for table \<open>j\<close>,
  given the interpolants \<open>sti\<close> of all sub-tables.
\<close>

definition table_key :: "ECLPropTableRawData \<Rightarrow> Converter \<Rightarrow> nat \<Rightarrow> double list" where
  "table_key raw cvrtKey j =
     map cvrtKey
       (filter (\<lambda>x. dless (std_abs x) (Finite (10 ^ 20))) (primaryKey_slice raw (of_nat j)))"

definition live_model ::
  "ECLPropTableRawData \<Rightarrow> Converter \<Rightarrow> 'sti list \<Rightarrow> nat \<Rightarrow> ('pvdx, 'sti) PVxOBase" where
  "live_model raw cvrtKey sti j =
     LiveOil \<lparr> key = table_key raw cvrtKey j,
               propInterp = take (length (table_key raw cvrtKey j))
                              (drop (j * unat (numPrimary raw)) sti) \<rparr>"

text \<open>
  The interpolant of sub-table \<open>i\<close>, or the one that \<open>StI(Extrap{})\<close> builds if the
  constructor fails.
\<close>

definition StI_or_invalid ::
  "('u, 'pvdx, 'sti) collaborators \<Rightarrow> ECLPropTableRawData \<Rightarrow> Converter \<Rightarrow> Converter list
     \<Rightarrow> nat \<Rightarrow> 'sti" where
  "StI_or_invalid ext raw cx cy i =
     (case StI_ctor ext raw i cx cy of Inl e \<Rightarrow> StI_invalid ext | Inr s \<Rightarrow> s)"

text \<open>
  The slots of a slice whose entries are kept, in order; and the property that no kept
  entry follows a sentinel.
\<close>

definition valid_slots :: "double list \<Rightarrow> nat list" where
  "valid_slots ks =
     filter (\<lambda>j. dless (std_abs (ks ! j)) (Finite (10 ^ 20))) [0 ..< length ks]"

definition sentinels_trailing :: "double list \<Rightarrow> bool" where
  "sentinels_trailing ks \<longleftrightarrow>
     (\<forall>x \<in> set (dropWhile (\<lambda>x. dless (std_abs x) (Finite (10 ^ 20))) ks).
        \<not> dless (std_abs x) (Finite (10 ^ 20)))"

text \<open>The live oil table with the unused slot of the key in front.\<close>

definition gap_table :: ECLPropTableRawData where
  "gap_table = live_table\<lparr> primaryKey := [Finite (10 ^ 21), Finite 0, Finite 50] \<rparr>"

text \<open>
  The operations that copy, move and destroy handles; \<open>touched\<close> gives the handles that an
  operation may change: its target and, for a move, its source.
\<close>

datatype oil_op =
    CopyConstruct addr addr
  | MoveConstruct addr addr
  | CopyAssign addr addr
  | MoveAssign addr addr
  | Destroy addr

fun apply_op :: "('pvdx, 'sti) store \<Rightarrow> oil_op \<Rightarrow> failure + ('pvdx, 'sti) store" where
  "apply_op st (CopyConstruct this rhs) = Oil_copy_ctor st this rhs"
| "apply_op st (MoveConstruct this rhs) = Oil_move_ctor st this rhs"
| "apply_op st (CopyAssign this rhs) = Oil_copy_assign st this rhs"
| "apply_op st (MoveAssign this rhs) = Oil_move_assign st this rhs"
| "apply_op st (Destroy this) = Oil_dtor st this"

fun apply_ops :: "('pvdx, 'sti) store \<Rightarrow> oil_op list \<Rightarrow> failure + ('pvdx, 'sti) store" where
  "apply_ops st [] = Inr st"
| "apply_ops st (x # xs) =
     (case apply_op st x of Inl e \<Rightarrow> Inl e | Inr st1 \<Rightarrow> apply_ops st1 xs)"

fun touched :: "oil_op \<Rightarrow> addr set" where
  "touched (CopyConstruct this rhs) = {this}"
| "touched (MoveConstruct this rhs) = {this, rhs}"
| "touched (CopyAssign this rhs) = {this}"
| "touched (MoveAssign this rhs) = {this, rhs}"
| "touched (Destroy this) = {this}"

text \<open>
  Ownership in a store: a handle that is not null points to a living catalogue, no two
  handles point to the same catalogue, the evaluators of a living catalogue are alive,
  no evaluator belongs to two catalogues, and every living object lies below the next
  unused address.
\<close>

definition wf_store :: "('pvdx, 'sti) store \<Rightarrow> bool" where
  "wf_store st \<longleftrightarrow>
     (\<forall>a oil p. oil_at st a = Some oil \<and> Oil_pImpl oil = Some p \<longrightarrow> impl_at st p \<noteq> None)
     \<and> (\<forall>a b oil oil' p. oil_at st a = Some oil \<and> oil_at st b = Some oil'
            \<and> Oil_pImpl oil = Some p \<and> Oil_pImpl oil' = Some p \<longrightarrow> a = b)
     \<and> (\<forall>p i. impl_at st p = Some i \<longrightarrow>
            p < brk st \<and> (\<forall>q \<in> set (Impl_eval i). pvxo_at st q \<noteq> None))
     \<and> (\<forall>p p' i i'. impl_at st p = Some i \<and> impl_at st p' = Some i' \<and> p \<noteq> p'
            \<longrightarrow> set (Impl_eval i) \<inter> set (Impl_eval i') = {})
     \<and> (\<forall>q. pvxo_at st q \<noteq> None \<longrightarrow> q < brk st)"

text \<open>
  What the queries on a handle depend on: the evaluators of its catalogue, in order, and
  the densities. \<open>impl_view\<close> is the same for a catalogue.
\<close>

definition Oil_view ::
  "('pvdx, 'sti) store \<Rightarrow> addr \<Rightarrow> failure + (('pvdx, 'sti) PVxOBase option list \<times> double list)" where
  "Oil_view st this =
     (case Oil_impl st this of
        Inl e \<Rightarrow> Inl e
      | Inr i \<Rightarrow> Inr (map (pvxo_at st) (Impl_eval i), Impl_rhoS i))"

definition impl_view ::
  "('pvdx, 'sti) store \<Rightarrow> addr \<Rightarrow> failure + (('pvdx, 'sti) PVxOBase option list \<times> double list)" where
  "impl_view st a =
     (case impl_at st a of
        None \<Rightarrow> Inl undefined_behaviour
      | Some i \<Rightarrow> Inr (map (pvxo_at st) (Impl_eval i), Impl_rhoS i))"

text \<open>A catalogue that no handle points to; writing a pointer; removing a handle.\<close>

definition unowned :: "('pvdx, 'sti) store \<Rightarrow> addr \<Rightarrow> bool" where
  "unowned st a \<longleftrightarrow> (\<forall>x oil. oil_at st x = Some oil \<longrightarrow> Oil_pImpl oil \<noteq> Some a)"

definition set_pImpl :: "('pvdx, 'sti) store \<Rightarrow> addr \<Rightarrow> addr option \<Rightarrow> ('pvdx, 'sti) store" where
  "set_pImpl st x p = st\<lparr> oil_at := (oil_at st)(x \<mapsto> \<lparr> Oil_pImpl = p \<rparr>) \<rparr>"

definition drop_handle :: "('pvdx, 'sti) store \<Rightarrow> addr \<Rightarrow> ('pvdx, 'sti) store" where
  "drop_handle st x = st\<lparr> oil_at := (oil_at st)(x := None) \<rparr>"

text \<open>Two handles, each in its store, answer every query alike.\<close>

definition same_answers ::
  "('u, 'pvdx, 'sti) collaborators \<Rightarrow> ('pvdx, 'sti) store \<Rightarrow> addr
     \<Rightarrow> ('pvdx, 'sti) store \<Rightarrow> addr \<Rightarrow> bool" where
  "same_answers ext st1 a st2 b \<longleftrightarrow>
     (\<forall>region rs po curve.
        Oil_formationVolumeFactor ext st1 a region rs po
          = Oil_formationVolumeFactor ext st2 b region rs po
        \<and> Oil_viscosity ext st1 a region rs po = Oil_viscosity ext st2 b region rs po
        \<and> Oil_surfaceMassDensity st1 a region = Oil_surfaceMassDensity st2 b region
        \<and> Oil_getPvtCurve ext st1 a curve region = Oil_getPvtCurve ext st2 b curve region)"

section \<open>The primary key of a live oil table\<close>

lemma dle_not_dless: "dle a b \<Longrightarrow> \<not> dless b a"
  by (cases a; cases b) auto

lemma extractPrimaryKey_loop_eq:
  "b \<le> e \<Longrightarrow> e \<le> length pk \<Longrightarrow>
   extractPrimaryKey_loop pk cvrtKey b e k =
     k @ map cvrtKey (filter (\<lambda>x. dless (std_abs x) (Finite (10 ^ 20)))
                       (take (e - b) (drop b pk)))"
proof (induction pk cvrtKey b e k rule: extractPrimaryKey_loop.induct)
  case (1 pk cvrtKey b e k)
  show ?case
  proof (cases "b < e")
    case True
    then have lt: "b < length pk" using "1.prems" by simp
    have split: "take (e - b) (drop b pk) = pk ! b # take (e - Suc b) (drop (Suc b) pk)"
      using True lt by (metis Cons_nth_drop_Suc Suc_diff_Suc take_Suc_Cons)
    have ih: "extractPrimaryKey_loop pk cvrtKey (Suc b) e
             (if dless (std_abs (pk ! b)) (Finite (10 ^ 20))
              then k @ [cvrtKey (pk ! b)] else k) =
           (if dless (std_abs (pk ! b)) (Finite (10 ^ 20))
              then k @ [cvrtKey (pk ! b)] else k) @
            map cvrtKey (filter (\<lambda>x. dless (std_abs x) (Finite (10 ^ 20)))
                       (take (e - Suc b) (drop (Suc b) pk)))"
      using "1.IH"[OF True] True "1.prems" by simp
    have step: "extractPrimaryKey_loop pk cvrtKey b e k =
        extractPrimaryKey_loop pk cvrtKey (Suc b) e
             (if dless (std_abs (pk ! b)) (Finite (10 ^ 20))
              then k @ [cvrtKey (pk ! b)] else k)"
      using True by (subst extractPrimaryKey_loop.simps) simp
    show ?thesis
      by (simp only: step ih split) simp
  next
    case False
    then show ?thesis using "1.prems"
      by (subst extractPrimaryKey_loop.simps) simp
  qed
qed

lemma extractPrimaryKey_eq:
  assumes "unat (t * numPrimary raw) + unat (numPrimary raw) \<le> length (primaryKey raw)"
  shows "extractPrimaryKey raw t cvrtKey =
           Inr (map cvrtKey (filter (\<lambda>x. dless (std_abs x) (Finite (10 ^ 20)))
                              (primaryKey_slice raw t)))"
  using assms
  by (simp add: extractPrimaryKey_def Let_def primaryKey_slice_def
        extractPrimaryKey_loop_eq del: power_numeral)

lemma length_primaryKey_slice:
  "unat (t * numPrimary raw) + unat (numPrimary raw) \<le> length (primaryKey raw) \<Longrightarrow>
   length (primaryKey_slice raw t) = unat (numPrimary raw)"
  by (simp add: primaryKey_slice_def)

text \<open>
  Claim C4. Whenever the slice of table \<open>t\<close> lies within \<open>primaryKey\<close> (as it does for every
  table of a live oil table that passed validation), \<open>extractPrimaryKey\<close> returns, in
  order, the converted entries of the slice whose absolute value is below \<open>10\<^sup>2\<^sup>0\<close>, and
  nothing else; if some entry of the slice has an absolute value of at least \<open>10\<^sup>2\<^sup>0\<close>, the
  key is shorter than \<open>numPrimary\<close>.
\<close>

theorem extractPrimaryKey_drops_sentinels:
  assumes "unat (t * numPrimary raw) + unat (numPrimary raw) \<le> length (primaryKey raw)"
  shows "\<exists>k. extractPrimaryKey raw t cvrtKey = Inr k
           \<and> k = map cvrtKey (filter (\<lambda>x. dless (std_abs x) (Finite (10 ^ 20)))
                                (primaryKey_slice raw t))
           \<and> ((\<exists>x \<in> set (primaryKey_slice raw t). dle (Finite (10 ^ 20)) (std_abs x))
                \<longrightarrow> length k < unat (numPrimary raw))"
proof -
  let ?valid = "\<lambda>x. dless (std_abs x) (Finite (10 ^ 20))"
  let ?k = "map cvrtKey (filter ?valid (primaryKey_slice raw t))"
  have shorter: "length ?k < unat (numPrimary raw)"
    if "\<exists>x \<in> set (primaryKey_slice raw t). dle (Finite (10 ^ 20)) (std_abs x)"
  proof -
    from that obtain x where x: "x \<in> set (primaryKey_slice raw t)" "\<not> ?valid x"
      using dle_not_dless by blast
    then have "length (filter ?valid (primaryKey_slice raw t)) < length (primaryKey_slice raw t)"
      by (intro length_filter_less)
    then show ?thesis
      using length_primaryKey_slice [OF assms] by simp
  qed
  show ?thesis
    using extractPrimaryKey_eq [OF assms, of cvrtKey] shorter by blast
qed

theorem extractPrimaryKey_drops_sentinels_witness:
  "extractPrimaryKey live_table 0 (dscale 1) = Inr [Finite 0, Finite 50]
   \<and> length [Finite 0, Finite 50] < unat (numPrimary live_table)"
proof -
  have inside: "unat (0 * numPrimary live_table) + unat (numPrimary live_table)
                  \<le> length (primaryKey live_table)"
    by (simp add: live_table_def)
  have slice: "primaryKey_slice live_table 0 = [Finite 0, Finite 50, Finite (10 ^ 21)]"
    by (simp add: primaryKey_slice_def live_table_def)
  have sentinel: "\<exists>x \<in> set (primaryKey_slice live_table 0). dle (Finite (10 ^ 20)) (std_abs x)"
    by (simp add: slice)
  have kept: "map (dscale 1) (filter (\<lambda>x. dless (std_abs x) (Finite (10 ^ 20)))
                (primaryKey_slice live_table 0)) = [Finite 0, Finite 50]"
    by (simp add: slice)
  from extractPrimaryKey_drops_sentinels [OF inside, of "dscale 1"] sentinel
  show ?thesis
    unfolding kept by auto
qed

section \<open>Validation\<close>

lemma violation_messages_nonempty:
  "invariant_violated raw \<Longrightarrow> violation_messages raw \<noteq> []"
  by (auto simp: invariant_violated_def violation_messages_def)

lemma createPVTFunction_violated:
  assumes "invariant_violated raw"
  shows "createPVTFunction ext raw usys = Inl (invalid_argument (hd (violation_messages raw)))"
  using assms
  by (auto simp: invariant_violated_def violation_messages_def createPVTFunction_def)

lemma createPVTFunction_valid:
  assumes "\<not> invariant_violated raw"
  shows "createPVTFunction ext raw usys =
           (if numPrimary raw = 1 then createDeadOil ext raw usys else createLiveOil ext raw usys)"
  using assms
  by (auto simp: invariant_violated_def createPVTFunction_def)

lemma invariant_violated_exact_iff:
  assumes "unat (numPrimary raw) * unat (numTables raw) < 2 ^ 64"
    and "unat (numPrimary raw) * unat (numRows raw) * unat (numCols raw)
           * unat (numTables raw) < 2 ^ 64"
  shows "invariant_violated raw \<longleftrightarrow> invariant_violated_exact raw"
proof -
  have two: "unat (numPrimary raw * numTables raw)
               = unat (numPrimary raw) * unat (numTables raw)"
    using assms(1) by (simp add: unat_mult_lem [THEN iffD1])
  have "unat (numPrimary raw * numRows raw * numCols raw * numTables raw)
          = (unat (numPrimary raw) * unat (numRows raw) * unat (numCols raw)
               * unat (numTables raw)) mod 2 ^ 64"
    by (simp add: unat_word_ariths mod_simps)
  then have four: "unat (numPrimary raw * numRows raw * numCols raw * numTables raw)
          = unat (numPrimary raw) * unat (numRows raw) * unat (numCols raw)
               * unat (numTables raw)"
    using assms(2) by simp
  have zero: "numPrimary raw = 0 \<longleftrightarrow> unat (numPrimary raw) = 0"
    by (simp add: unat_eq_0)
  have five: "numCols raw = 5 \<longleftrightarrow> unat (numCols raw) = 5"
    by (simp add: word_eq_iff_unsigned [where ?'a = nat])
  show ?thesis
    unfolding invariant_violated_def invariant_violated_exact_def two four zero five ..
qed

text \<open>
  What the four checks establish. If one of them fails, \<open>createPVTFunction\<close> throws a
  \<open>std::invalid_argument\<close> whose message is the one of the first check that fails,
  whatever the collaborators and the unit system are: no interpolant is built, and
  \<open>Oil_ctor\<close> throws the same exception and returns no store. If none fails,
  \<open>createPVTFunction\<close> throws nothing of its own: its outcome is the outcome of the builder
  that it calls.
\<close>

lemma createPVTFunction_checks:
  "(invariant_violated raw \<longrightarrow>
      (\<exists>m rest. violation_messages raw = m # rest
         \<and> (\<forall>(ext' :: ('u, 'pvdx, 'sti) collaborators) usys'.
               createPVTFunction ext' raw usys' = Inl (invalid_argument m))
         \<and> (\<forall>(ext' :: ('u, 'pvdx, 'sti) collaborators) st this usys' rhoS.
               Oil_ctor ext' st this raw usys' rhoS = Inl (invalid_argument m))))
   \<and> (\<not> invariant_violated raw \<longrightarrow>
        createPVTFunction (ext :: ('u, 'pvdx, 'sti) collaborators) raw usys =
          (if numPrimary raw = 1 then createDeadOil ext raw usys
           else createLiveOil ext raw usys))"
proof (intro conjI impI)
  assume v: "invariant_violated raw"
  then obtain m rest where m: "violation_messages raw = m # rest"
    using violation_messages_nonempty by (cases "violation_messages raw") auto
  have c: "createPVTFunction ext' raw usys' = Inl (invalid_argument m)"
    for ext' :: "('u, 'pvdx, 'sti) collaborators" and usys'
    using createPVTFunction_violated [OF v, of ext' usys'] m by simp
  have "Oil_ctor ext' st this raw usys' rhoS = Inl (invalid_argument m)"
    for ext' :: "('u, 'pvdx, 'sti) collaborators" and st this usys' rhoS
    by (simp add: Oil_ctor_def Impl_ctor_def c)
  with m c show "\<exists>m rest. violation_messages raw = m # rest
         \<and> (\<forall>(ext' :: ('u, 'pvdx, 'sti) collaborators) usys'.
               createPVTFunction ext' raw usys' = Inl (invalid_argument m))
         \<and> (\<forall>(ext' :: ('u, 'pvdx, 'sti) collaborators) st this usys' rhoS.
               Oil_ctor ext' st this raw usys' rhoS = Inl (invalid_argument m))"
    by blast
next
  assume "\<not> invariant_violated raw"
  then show "createPVTFunction ext raw usys =
          (if numPrimary raw = 1 then createDeadOil ext raw usys
           else createLiveOil ext raw usys)"
    by (rule createPVTFunction_valid)
qed

text \<open>
  A check that fires is right to fire: the arrays of a table are vectors, whose sizes fit
  the size type, and for such a table a failed check means that an invariant of the
  specification fails.
\<close>

lemma failed_check_is_violation:
  assumes "invariant_violated raw"
    and "length (primaryKey raw) < 2 ^ 64" and "length (data raw) < 2 ^ 64"
  shows "invariant_violated_exact raw"
proof (rule ccontr)
  assume ok: "\<not> invariant_violated_exact raw"
  then have "length (primaryKey raw) = unat (numPrimary raw) * unat (numTables raw)"
    and "length (data raw)
           = unat (numPrimary raw) * unat (numRows raw) * unat (numCols raw)
               * unat (numTables raw)"
    by (simp_all add: invariant_violated_exact_def)
  with assms(2,3) have "unat (numPrimary raw) * unat (numTables raw) < 2 ^ 64"
    and "unat (numPrimary raw) * unat (numRows raw) * unat (numCols raw)
           * unat (numTables raw) < 2 ^ 64"
    by simp_all
  then have "invariant_violated raw \<longleftrightarrow> invariant_violated_exact raw"
    by (rule invariant_violated_exact_iff)
  with assms(1) ok show False
    by simp
qed

text \<open>
  The requests of the two calls of \<open>reserve\<close>: for a table that passed the checks and
  whose key product does not wrap around, \<open>numTables\<close> is no more than the size of
  \<open>primaryKey\<close>, and so is \<open>numPrimary\<close> whenever the loop of \<open>createLiveOil\<close> runs at all.
\<close>

lemma reserve_requests_fit:
  assumes "\<not> invariant_violated raw"
    and "unat (numPrimary raw) * unat (numTables raw) < 2 ^ 64"
  shows "unat (numTables raw) \<le> length (primaryKey raw)"
    and "numTables raw \<noteq> 0 \<Longrightarrow> unat (numPrimary raw) \<le> length (primaryKey raw)"
proof -
  have "unat (numPrimary raw * numTables raw)
          = unat (numPrimary raw) * unat (numTables raw)"
    using assms(2) by (simp add: unat_mult_lem [THEN iffD1])
  with assms(1) have len: "length (primaryKey raw)
                             = unat (numPrimary raw) * unat (numTables raw)"
    by (simp add: invariant_violated_def)
  have "unat (numPrimary raw) \<noteq> 0"
    using assms(1) by (simp add: invariant_violated_def unat_eq_0)
  then show "unat (numTables raw) \<le> length (primaryKey raw)"
    by (simp add: len)
  show "unat (numPrimary raw) \<le> length (primaryKey raw)" if "numTables raw \<noteq> 0"
  proof -
    from that have "unat (numTables raw) \<noteq> 0"
      by (simp add: unat_eq_0)
    then show ?thesis
      by (simp add: len)
  qed
qed

lemma wrapped_table_sizes:
  "unat (numPrimary wrapped_table * numTables wrapped_table) = 0"
  "unat (numPrimary wrapped_table * numRows wrapped_table * numCols wrapped_table
           * numTables wrapped_table) = 0"
  "unat (numPrimary wrapped_table) * unat (numTables wrapped_table) = 2 ^ 64"
  "unat (numPrimary wrapped_table) * unat (numRows wrapped_table)
     * unat (numCols wrapped_table) * unat (numTables wrapped_table) = 10 * 2 ^ 63"
  by (simp_all add: wrapped_table_def)

lemma wrapped_table_violates: "invariant_violated_exact wrapped_table"
  by (simp add: invariant_violated_exact_def wrapped_table_sizes)
     (simp add: wrapped_table_def)

lemma wrapped_table_passes: "\<not> invariant_violated wrapped_table"
  by (simp add: invariant_violated_def wrapped_table_sizes)
     (simp add: wrapped_table_def)

lemma unused_table_valid: "\<not> invariant_violated_exact unused_table"
  by (simp add: invariant_violated_exact_def unused_table_def)

text \<open>
  Claim C2. \<open>createPVTFunction\<close> compares the sizes of the two arrays with products that it
  computes in the size type. For \<open>wrapped_table\<close> two invariants of the specification fail
  (\<open>wrapped_table_violates\<close>): \<open>primaryKey\<close> would have to hold \<open>2\<^sup>6\<^sup>4\<close> entries and \<open>data\<close>
  \<open>10 * 2\<^sup>6\<^sup>3\<close>, while both arrays are empty. Yet none of the four checks fires: no message
  is due, \<open>createPVTFunction\<close> hands the table to \<open>createLiveOil\<close> and throws no
  \<open>std::invalid_argument\<close>. For \<open>unused_table\<close>, in turn, the two arrays have the sizes
  that the counts give, the table has a key and five columns (\<open>unused_table_valid\<close>), and
  construction ends in the \<open>std::invalid_argument\<close> of the interpolant's constructor, for
  which \<open>createDeadOil\<close> has no handler.
\<close>

theorem createPVTFunction_accepts_wrapped_sizes:
  "length (primaryKey wrapped_table)
     \<noteq> unat (numPrimary wrapped_table) * unat (numTables wrapped_table)
   \<and> length (data wrapped_table)
       \<noteq> unat (numPrimary wrapped_table) * unat (numRows wrapped_table)
           * unat (numCols wrapped_table) * unat (numTables wrapped_table)
   \<and> violation_messages wrapped_table = []
   \<and> createPVTFunction sample_ext wrapped_table 1 = createLiveOil sample_ext wrapped_table 1
   \<and> (\<nexists>m. createPVTFunction sample_ext wrapped_table 1 = Inl (invalid_argument m))
   \<and> (\<nexists>m. Oil_ctor sample_ext empty_store 0 wrapped_table 1 [] = Inl (invalid_argument m))
   \<and> length (primaryKey unused_table)
       = unat (numPrimary unused_table) * unat (numTables unused_table)
   \<and> length (data unused_table)
       = unat (numPrimary unused_table) * unat (numRows unused_table)
           * unat (numCols unused_table) * unat (numTables unused_table)
   \<and> violation_messages unused_table = []
   \<and> createPVTFunction sample_ext unused_table 1
       = Inl (invalid_argument ''No Valid Table Nodes'')"
proof -
  have handed: "createPVTFunction sample_ext wrapped_table 1
                  = createLiveOil sample_ext wrapped_table 1"
    using createPVTFunction_valid [OF wrapped_table_passes, of sample_ext 1]
    by (simp add: wrapped_table_def)
  have first: "(0 :: SizeType) < numTables wrapped_table"
    by (simp add: wrapped_table_def)
  have key: "extractPrimaryKey wrapped_table 0 cvrtKey = Inl undefined_behaviour" for cvrtKey
    by (simp add: extractPrimaryKey_def Let_def wrapped_table_def)
  have "createLiveOil_loop wrapped_table cvrtKey sti 0 [] = Inl undefined_behaviour"
    for cvrtKey and sti :: "double list list"
    using first by (subst createLiveOil_loop.simps) (simp add: key)
  then have builder: "createLiveOil sample_ext wrapped_table 1 = Inl undefined_behaviour"
    by (simp add: createLiveOil_def liveOilUnitConverter_def fromRawData_def
          wrapped_table_sizes(1) sample_ext_def)
  with handed have result:
    "createPVTFunction sample_ext wrapped_table 1 = Inl undefined_behaviour"
    by simp
  have wrapped_sizes:
    "length (primaryKey wrapped_table)
       \<noteq> unat (numPrimary wrapped_table) * unat (numTables wrapped_table)"
    "length (data wrapped_table)
       \<noteq> unat (numPrimary wrapped_table) * unat (numRows wrapped_table)
           * unat (numCols wrapped_table) * unat (numTables wrapped_table)"
    by (simp_all add: wrapped_table_sizes) (simp_all add: wrapped_table_def)
  have wrapped_messages: "violation_messages wrapped_table = []"
    by (simp add: violation_messages_def wrapped_table_sizes) (simp add: wrapped_table_def)
  have ctor: "Oil_ctor sample_ext empty_store 0 wrapped_table 1 [] = Inl undefined_behaviour"
    by (simp add: Oil_ctor_def Impl_ctor_def result)
  have unused_sizes:
    "length (primaryKey unused_table)
       = unat (numPrimary unused_table) * unat (numTables unused_table)"
    "length (data unused_table)
       = unat (numPrimary unused_table) * unat (numRows unused_table)
           * unat (numCols unused_table) * unat (numTables unused_table)"
    by (simp_all add: unused_table_def)
  have unused_messages: "violation_messages unused_table = []"
    by (simp add: violation_messages_def unused_table_def)
  have unused: "createPVTFunction sample_ext unused_table 1
                  = Inl (invalid_argument ''No Valid Table Nodes'')"
    by code_simp
  show ?thesis
    using wrapped_sizes wrapped_messages unused_sizes unused_messages unused
    by (simp add: result ctor builder)
qed

section \<open>Dead oil or live oil\<close>

lemma collect_all:
  "collect f xs = Inr ys \<Longrightarrow> (\<And>x y. f x = Inr y \<Longrightarrow> P y) \<Longrightarrow> \<forall>y \<in> set ys. P y"
proof (induction xs arbitrary: ys)
  case Nil
  then show ?case by simp
next
  case (Cons x xs)
  then show ?case
    by (auto split: sum.splits)
qed

lemma createDeadOil_all_dead:
  assumes "createDeadOil ext raw usys = Inr ms"
  shows "\<forall>m \<in> set ms. \<exists>interpolant. m = DeadOil interpolant"
proof -
  from assms obtain cvrt where
    "fromRawData raw (\<lambda>i. case PVDx_ctor ext raw i cvrt of
                         Inl e \<Rightarrow> Inl e
                       | Inr interpolant \<Rightarrow> Inr (DeadOil interpolant)) = Inr ms"
    by (auto simp: createDeadOil_def split: if_splits sum.splits)
  then show ?thesis
    unfolding fromRawData_def
    by (rule collect_all) (auto split: sum.splits)
qed

lemma createLiveOil_loop_all_live:
  "createLiveOil_loop raw cvrtKey sti t ret = Inr ms \<Longrightarrow>
   \<forall>m \<in> set ret. \<exists>interp. m = LiveOil interp \<Longrightarrow>
   \<forall>m \<in> set ms. \<exists>interp. m = LiveOil interp"
proof (induction raw cvrtKey sti t ret rule: createLiveOil_loop.induct)
  case (1 raw cvrtKey sti t ret)
  show ?case
  proof (cases "t < numTables raw")
    case True
    with "1.prems"(1) obtain k where
      k: "extractPrimaryKey raw t cvrtKey = Inr k" and
      fits: "unat ((t + 0) * numPrimary raw) + length k \<le> length sti" and
      rest: "createLiveOil_loop raw cvrtKey sti (t + 1)
               (ret @ [LiveOil \<lparr> key = k,
                    propInterp = take (unat ((t + 0) * numPrimary raw) + length k
                                         - unat ((t + 0) * numPrimary raw))
                                   (drop (unat ((t + 0) * numPrimary raw)) sti) \<rparr>]) = Inr ms"
      by (subst (asm) createLiveOil_loop.simps) (auto simp: Let_def split: sum.splits if_splits)
    show ?thesis
      by (rule "1.IH" [OF True k refl refl fits rest]) (use "1.prems"(2) in auto)
  next
    case False
    with "1.prems" show ?thesis
      by (subst (asm) createLiveOil_loop.simps) auto
  qed
qed

lemma createLiveOil_all_live:
  assumes "createLiveOil ext raw usys = Inr ms"
  shows "\<forall>m \<in> set ms. \<exists>interp. m = LiveOil interp"
proof -
  from assms obtain cvrtKey sti where
    "createLiveOil_loop raw cvrtKey sti (0 * numTables raw) [] = Inr ms"
    by (auto simp: createLiveOil_def split: sum.splits)
  then show ?thesis
    by (rule createLiveOil_loop_all_live) simp
qed


text \<open>
  Claim C3. For a raw table that passes validation, \<open>createPVTFunction\<close> is \<open>createDeadOil\<close>
  when \<open>numPrimary\<close> is one, and every function it then returns is a dead oil function; it
  is \<open>createLiveOil\<close> when \<open>numPrimary\<close> exceeds one, and every function it then returns is
  a live oil function. The other builder has no part in the outcome.
\<close>

theorem createPVTFunction_dispatch:
  assumes "\<not> invariant_violated raw"
  shows "(numPrimary raw = 1 \<longrightarrow>
            createPVTFunction ext raw usys = createDeadOil ext raw usys
            \<and> (\<forall>ms. createPVTFunction ext raw usys = Inr ms \<longrightarrow>
                  (\<forall>m \<in> set ms. \<exists>interpolant. m = DeadOil interpolant)))
       \<and> (1 < numPrimary raw \<longrightarrow>
            createPVTFunction ext raw usys = createLiveOil ext raw usys
            \<and> (\<forall>ms. createPVTFunction ext raw usys = Inr ms \<longrightarrow>
                  (\<forall>m \<in> set ms. \<exists>interp. m = LiveOil interp)))"
proof (intro conjI impI allI)
  assume one: "numPrimary raw = 1"
  show dead: "createPVTFunction ext raw usys = createDeadOil ext raw usys"
    using createPVTFunction_valid [OF assms, of ext usys] one by simp
  fix ms
  assume "createPVTFunction ext raw usys = Inr ms"
  with dead show "\<forall>m \<in> set ms. \<exists>interpolant. m = DeadOil interpolant"
    using createDeadOil_all_dead by metis
next
  assume more: "1 < numPrimary raw"
  then have "numPrimary raw \<noteq> 1"
    by simp
  then show live: "createPVTFunction ext raw usys = createLiveOil ext raw usys"
    using createPVTFunction_valid [OF assms, of ext usys] by simp
  fix ms
  assume "createPVTFunction ext raw usys = Inr ms"
  with live show "\<forall>m \<in> set ms. \<exists>interp. m = LiveOil interp"
    using createLiveOil_all_live by metis
qed

theorem createPVTFunction_dispatch_witness:
  "createDeadOil sample_ext dead_table 1 = Inr [DeadOil [Finite 10000000, Finite 30000000]]
   \<and> createLiveOil sample_ext live_table 1
       = Inr [LiveOil \<lparr> key = [Finite 0, Finite 50], propInterp = [[Finite 10000000], []] \<rparr>]"
proof -
  have good: "\<not> invariant_violated dead_table" "\<not> invariant_violated live_table"
    by (simp_all add: invariant_violated_def dead_table_def live_table_def)
  have prim: "numPrimary dead_table = 1" "1 < numPrimary live_table"
    by (simp_all add: dead_table_def live_table_def)
  have dead: "createPVTFunction sample_ext dead_table 1
                = Inr [DeadOil [Finite 10000000, Finite 30000000]]"
    by code_simp
  have live: "createPVTFunction sample_ext live_table 1
                = Inr [LiveOil \<lparr> key = [Finite 0, Finite 50],
                                 propInterp = [[Finite 10000000], []] \<rparr>]"
    by code_simp
  from createPVTFunction_dispatch [OF good(1), of sample_ext 1] prim(1) dead
  have "createDeadOil sample_ext dead_table 1 = Inr [DeadOil [Finite 10000000, Finite 30000000]]"
    by simp
  moreover
  from createPVTFunction_dispatch [OF good(2), of sample_ext 1] prim(2) live
  have "createLiveOil sample_ext live_table 1
       = Inr [LiveOil \<lparr> key = [Finite 0, Finite 50], propInterp = [[Finite 10000000], []] \<rparr>]"
    by simp
  ultimately show ?thesis by simp
qed

section \<open>Evaluation and curves\<close>

text \<open>
  Claim C7. The formation volume factor and the viscosity of a dead oil function do not
  depend on the gas ratio argument: not when the member is called directly, not through
  the base class, and not through the catalogue for a region whose evaluator is a dead
  oil function.
\<close>

theorem DeadOil_ignores_gas_ratio:
  "DeadOil_formationVolumeFactor ext interpolant rs1 po
     = DeadOil_formationVolumeFactor ext interpolant rs2 po
   \<and> DeadOil_viscosity ext interpolant rs1 po = DeadOil_viscosity ext interpolant rs2 po
   \<and> PVxO_formationVolumeFactor ext (DeadOil interpolant) rs1 po
       = PVxO_formationVolumeFactor ext (DeadOil interpolant) rs2 po
   \<and> PVxO_viscosity ext (DeadOil interpolant) rs1 po
       = PVxO_viscosity ext (DeadOil interpolant) rs2 po
   \<and> (pvxo_at st (Impl_eval i ! unat region) = Some (DeadOil interpolant) \<longrightarrow>
        Impl_formationVolumeFactor ext st i region rs1 po
          = Impl_formationVolumeFactor ext st i region rs2 po
        \<and> Impl_viscosity ext st i region rs1 po = Impl_viscosity ext st i region rs2 po)"
  by (simp add: DeadOil_formationVolumeFactor_def DeadOil_viscosity_def
        Impl_formationVolumeFactor_def Impl_viscosity_def split: sum.splits)

theorem DeadOil_ignores_gas_ratio_witness:
  "Impl_formationVolumeFactor sample_ext
     \<lparr> pvxo_at = [0 \<mapsto> DeadOil [Finite 10000000, Finite 30000000]],
       impl_at = [1 \<mapsto> \<lparr> Impl_eval = [0], Impl_rhoS = [Finite 850] \<rparr>],
       oil_at = [0 \<mapsto> \<lparr> Oil_pImpl = Some 1 \<rparr>], brk = 2 \<rparr>
     \<lparr> Impl_eval = [0], Impl_rhoS = [Finite 850] \<rparr> 0 [] [Finite 200]
   = Impl_formationVolumeFactor sample_ext
     \<lparr> pvxo_at = [0 \<mapsto> DeadOil [Finite 10000000, Finite 30000000]],
       impl_at = [1 \<mapsto> \<lparr> Impl_eval = [0], Impl_rhoS = [Finite 850] \<rparr>],
       oil_at = [0 \<mapsto> \<lparr> Oil_pImpl = Some 1 \<rparr>], brk = 2 \<rparr>
     \<lparr> Impl_eval = [0], Impl_rhoS = [Finite 850] \<rparr> 0 [Finite 75] [Finite 200]"
proof -
  let ?st = "\<lparr> pvxo_at = [0 \<mapsto> DeadOil [Finite 10000000, Finite 30000000]],
               impl_at = [1 \<mapsto> \<lparr> Impl_eval = [0], Impl_rhoS = [Finite 850] \<rparr>],
               oil_at = [0 \<mapsto> \<lparr> Oil_pImpl = Some 1 \<rparr>], brk = 2 \<rparr>
             :: (double list, double list) store"
  let ?i = "\<lparr> Impl_eval = [0], Impl_rhoS = [Finite 850] \<rparr>"
  have dead: "pvxo_at ?st (Impl_eval ?i ! unat (0 :: SizeType))
                = Some (DeadOil [Finite 10000000, Finite 30000000])"
    by simp
  from DeadOil_ignores_gas_ratio
         [where st = ?st and i = ?i and region = 0
            and interpolant = "[Finite 10000000, Finite 30000000]" and ext = sample_ext
            and ?rs1.0 = "[]" and ?rs2.0 = "[Finite 75]" and po = "[Finite 200]"] dead
  show ?thesis
    by blast
qed

lemma LiveOil_getPvtCurve_as_built:
  "LiveOil_getPvtCurve ext interp curve = PVTx_getPvtCurve ext interp curve"
  by (simp add: LiveOil_getPvtCurve_def)

text \<open>
  Claim C1. The claim asks that the saturated state curve of a live oil function comes
  with its two columns swapped, as \<open>repackagePvtCurve\<close> would do. \<open>LiveOil_getPvtCurve\<close> never
  calls \<open>repackagePvtCurve\<close>: it hands on what the table interpolant returns. For the
  catalogue built from \<open>live_table\<close>, the saturated state curve of region 0 has the gas
  ratio nodes in its first column and the pressure in its second, as the interpolant
  made it; the swapped graph is a different one.
\<close>

theorem LiveOil_getPvtCurve_SaturatedState_unswapped:
  "(case Oil_ctor sample_ext empty_store 0 live_table 1 [Finite 850] of
      Inl e \<Rightarrow> False
    | Inr st \<Rightarrow>
        Oil_getPvtCurve sample_ext st 0 SaturatedState 0
          = Inr [([Finite 0, Finite 50], [Finite 10000000])])
   \<and> PVTx_getPvtCurve sample_ext
        \<lparr> key = [Finite 0, Finite 50], propInterp = [[Finite 10000000], []] \<rparr> SaturatedState
       = Inr [([Finite 0, Finite 50], [Finite 10000000])]
   \<and> repackagePvtCurve [([Finite 0, Finite 50], [Finite 10000000])] SaturatedState
       = [([Finite 10000000], [Finite 0, Finite 50])]"
  by code_simp

section \<open>The range check and the density array\<close>

lemma unat_max_SizeType: "unat (- 1 :: SizeType) = 18446744073709551615"
  by (simp add: unsigned_minus_1_eq_mask mask_eq_exp_minus_1)

lemma to_string_examples:
  "to_string 0 = ''0''"
  "to_string 18446744073709551615 = ''18446744073709551615''"
  by (simp_all add: to_string.simps digit_char_def)

lemma createPVTFunction_empty_table: "createPVTFunction sample_ext empty_table 1 = Inr []"
  by code_simp

lemma createPVTFunction_dead_table:
  "createPVTFunction sample_ext dead_table 1 = Inr [DeadOil [Finite 10000000, Finite 30000000]]"
  by code_simp

lemma Oil_ctor_empty_table:
  "Oil_ctor sample_ext empty_store 0 empty_table 1 rhoS =
     Inr \<lparr> pvxo_at = (\<lambda>a. None),
           impl_at = [0 \<mapsto> \<lparr> Impl_eval = [], Impl_rhoS = rhoS \<rparr>],
           oil_at = [0 \<mapsto> \<lparr> Oil_pImpl = Some 0 \<rparr>], brk = 1 \<rparr>"
  by (simp add: Oil_ctor_def Impl_ctor_def createPVTFunction_empty_table new_impl_def
        empty_store_def)

lemma Oil_ctor_dead_table:
  "Oil_ctor sample_ext empty_store 0 dead_table 1 rhoS =
     Inr \<lparr> pvxo_at = [0 \<mapsto> DeadOil [Finite 10000000, Finite 30000000]],
           impl_at = [1 \<mapsto> \<lparr> Impl_eval = [0], Impl_rhoS = rhoS \<rparr>],
           oil_at = [0 \<mapsto> \<lparr> Oil_pImpl = Some 1 \<rparr>], brk = 2 \<rparr>"
  by (simp add: Oil_ctor_def Impl_ctor_def createPVTFunction_dead_table new_impl_def
        new_pvxo_def empty_store_def)

text \<open>
  Claim C5. The range check raises exactly when the region is not below the number of
  evaluators (\<open>validateRegIdx_throws_iff\<close>), and for a catalogue with at least one
  evaluator the message names the region and the range up to the size less one
  (\<open>validateRegIdx_message\<close>). For the catalogue built from \<open>empty_table\<close>, which has no
  evaluator, \<open>size() - 1\<close> wraps around: every accessor rejects region 0 with a message
  that gives \<open>0 .. 18446744073709551615\<close> as the valid range. A negative region is
  converted to the size type before it is checked and is named by its converted value.
\<close>

theorem validateRegIdx_names_wrong_range:
  "(case Oil_ctor sample_ext empty_store 0 empty_table 1 [] of
      Inl e \<Rightarrow> False
    | Inr st \<Rightarrow>
        Oil_surfaceMassDensity st 0 0
          = Inl (invalid_argument
                   ''Region Index 0 Outside Valid Range (0 .. 18446744073709551615)'')
        \<and> Oil_formationVolumeFactor sample_ext st 0 0 [] [Finite 200]
          = Inl (invalid_argument
                   ''Region Index 0 Outside Valid Range (0 .. 18446744073709551615)'')
        \<and> Oil_viscosity sample_ext st 0 0 [] [Finite 200]
          = Inl (invalid_argument
                   ''Region Index 0 Outside Valid Range (0 .. 18446744073709551615)'')
        \<and> Oil_getPvtCurve sample_ext st 0 FVF 0
          = Inl (invalid_argument
                   ''Region Index 0 Outside Valid Range (0 .. 18446744073709551615)''))
   \<and> (case Oil_ctor sample_ext empty_store 0 dead_table 1 [Finite 850] of
        Inl e \<Rightarrow> False
      | Inr st \<Rightarrow>
          Oil_surfaceMassDensity st 0 (- 1)
            = Inl (invalid_argument
                     ''Region Index 18446744073709551615 Outside Valid Range (0 .. 0)''))"
  by (simp add: Oil_ctor_empty_table Oil_ctor_dead_table
        Oil_surfaceMassDensity_def Oil_formationVolumeFactor_def Oil_viscosity_def
        Oil_getPvtCurve_def Oil_impl_def Impl_surfaceMassDensity_def
        Impl_formationVolumeFactor_def Impl_viscosity_def Impl_getPvtCurve_def
        validateRegIdx_def unat_max_SizeType to_string_examples)


lemma unat_of_nat_SizeType: "n < 2 ^ 64 \<Longrightarrow> unat (of_nat n :: SizeType) = n"
  by (simp add: unat_of_nat)

lemma validateRegIdx_iff:
  "validateRegIdx i region = Inr () \<longleftrightarrow> unat region < length (Impl_eval i)"
  by (simp add: validateRegIdx_def)

lemma validateRegIdx_throws_iff:
  "(\<exists>m. validateRegIdx i region = Inl (invalid_argument m))
     \<longleftrightarrow> length (Impl_eval i) \<le> unat region"
  by (simp add: validateRegIdx_def)

lemma validateRegIdx_message:
  assumes "0 < length (Impl_eval i)" "length (Impl_eval i) < 2 ^ 64"
    and "length (Impl_eval i) \<le> unat region"
  shows "validateRegIdx i region =
           Inl (invalid_argument
                  (''Region Index '' @ to_string (unat region) @
                   '' Outside Valid Range (0 .. '' @
                   to_string (length (Impl_eval i) - 1) @ '')''))"
proof -
  let ?n = "of_nat (length (Impl_eval i)) :: SizeType"
  have n: "unat ?n = length (Impl_eval i)"
    using assms(2) by (simp add: unat_of_nat_SizeType)
  with assms(1) have "?n \<noteq> 0"
    by (metis less_numeral_extra(3) unat_0)
  then have "unat (?n - 1) = length (Impl_eval i) - 1"
    by (simp add: unat_minus_one n)
  then show ?thesis
    using assms(3) by (simp add: validateRegIdx_def)
qed

lemma Impl_ctor_rhoS:
  "Impl_ctor ext st raw usys rhoS =
     (case Impl_ctor ext st raw usys [] of
        Inl e \<Rightarrow> Inl e
      | Inr (st1, i) \<Rightarrow> Inr (st1, i\<lparr> Impl_rhoS := rhoS \<rparr>))"
  by (simp add: Impl_ctor_def split: sum.splits prod.splits)

lemma Impl_surfaceMassDensity_undefined_iff:
  "Impl_surfaceMassDensity i region = Inl undefined_behaviour
     \<longleftrightarrow> unat region < length (Impl_eval i) \<and> length (Impl_rhoS i) \<le> unat region"
  by (auto simp: Impl_surfaceMassDensity_def validateRegIdx_def)

text \<open>
  Claim C10. The constructor of the catalogue stores the density array as it is given: the
  same table is accepted or rejected whatever the array is. \<open>Impl_surfaceMassDensity\<close>
  checks the region against the number of evaluators only, so the read of the density
  array is out of bounds exactly for a region that passes this check and is not below the
  length of the array; no region is read out of bounds if and only if the array is at
  least as long as the list of evaluators.
\<close>

theorem surfaceMassDensity_unchecked_length:
  "Impl_ctor ext st raw usys rhoS =
     (case Impl_ctor ext st raw usys [] of
        Inl e \<Rightarrow> Inl e
      | Inr (st1, i) \<Rightarrow> Inr (st1, i\<lparr> Impl_rhoS := rhoS \<rparr>))
   \<and> (Impl_surfaceMassDensity i region = Inl undefined_behaviour
        \<longleftrightarrow> unat region < length (Impl_eval i) \<and> length (Impl_rhoS i) \<le> unat region)
   \<and> (length (Impl_rhoS i) < 2 ^ 64 \<longrightarrow>
        ((\<forall>r. Impl_surfaceMassDensity i r \<noteq> Inl undefined_behaviour)
           \<longleftrightarrow> length (Impl_eval i) \<le> length (Impl_rhoS i)))"
proof (intro conjI impI)
  show "Impl_ctor ext st raw usys rhoS =
     (case Impl_ctor ext st raw usys [] of
        Inl e \<Rightarrow> Inl e
      | Inr (st1, i) \<Rightarrow> Inr (st1, i\<lparr> Impl_rhoS := rhoS \<rparr>))"
    by (rule Impl_ctor_rhoS)
  show "Impl_surfaceMassDensity i region = Inl undefined_behaviour
        \<longleftrightarrow> unat region < length (Impl_eval i) \<and> length (Impl_rhoS i) \<le> unat region"
    by (rule Impl_surfaceMassDensity_undefined_iff)
  assume small: "length (Impl_rhoS i) < 2 ^ 64"
  show "(\<forall>r. Impl_surfaceMassDensity i r \<noteq> Inl undefined_behaviour)
           \<longleftrightarrow> length (Impl_eval i) \<le> length (Impl_rhoS i)"
  proof
    assume safe: "\<forall>r. Impl_surfaceMassDensity i r \<noteq> Inl undefined_behaviour"
    show "length (Impl_eval i) \<le> length (Impl_rhoS i)"
    proof (rule ccontr)
      assume "\<not> length (Impl_eval i) \<le> length (Impl_rhoS i)"
      then have less: "length (Impl_rhoS i) < length (Impl_eval i)"
        by simp
      let ?r = "of_nat (length (Impl_rhoS i)) :: SizeType"
      have "unat ?r = length (Impl_rhoS i)"
        using small by (simp add: unat_of_nat_SizeType)
      with less have "Impl_surfaceMassDensity i ?r = Inl undefined_behaviour"
        by (simp add: Impl_surfaceMassDensity_undefined_iff)
      with safe show False
        by blast
    qed
  next
    assume "length (Impl_eval i) \<le> length (Impl_rhoS i)"
    then show "\<forall>r. Impl_surfaceMassDensity i r \<noteq> Inl undefined_behaviour"
      by (simp add: Impl_surfaceMassDensity_undefined_iff)
  qed
qed

theorem surfaceMassDensity_unchecked_length_witness:
  "Impl_surfaceMassDensity \<lparr> Impl_eval = [0], Impl_rhoS = [] \<rparr> 0 = Inl undefined_behaviour
   \<and> (\<exists>r. Impl_surfaceMassDensity \<lparr> Impl_eval = [0], Impl_rhoS = [] \<rparr> r
              = Inl undefined_behaviour)
   \<and> (case Oil_ctor sample_ext empty_store 0 dead_table 1 [] of
        Inl e \<Rightarrow> False
      | Inr st \<Rightarrow> Oil_surfaceMassDensity st 0 0 = Inl undefined_behaviour)"
proof -
  let ?i = "\<lparr> Impl_eval = [0], Impl_rhoS = [] \<rparr>"
  note inst = surfaceMassDensity_unchecked_length
                [where i = ?i and region = 0 and ext = sample_ext and st = empty_store
                   and raw = dead_table and usys = 1 and rhoS = "[]"]
  have small: "length (Impl_rhoS ?i) < 2 ^ 64"
    by simp
  from inst have first: "Impl_surfaceMassDensity ?i 0 = Inl undefined_behaviour"
    by simp
  from inst small have "\<not> (\<forall>r. Impl_surfaceMassDensity ?i r \<noteq> Inl undefined_behaviour)"
    by simp
  then have second: "\<exists>r. Impl_surfaceMassDensity ?i r = Inl undefined_behaviour"
    by blast
  have third: "(case Oil_ctor sample_ext empty_store 0 dead_table 1 [] of
        Inl e \<Rightarrow> False
      | Inr st \<Rightarrow> Oil_surfaceMassDensity st 0 0 = Inl undefined_behaviour)"
    by (simp add: Oil_ctor_dead_table Oil_surfaceMassDensity_def Oil_impl_def
          Impl_surfaceMassDensity_def validateRegIdx_def)
  from first second third show ?thesis
    by blast
qed

section \<open>Building live oil functions\<close>

lemma collect_length: "collect f xs = Inr ys \<Longrightarrow> length ys = length xs"
  by (induction xs arbitrary: ys) (auto split: sum.splits)

lemma collect_map: "(\<And>x. x \<in> set xs \<Longrightarrow> f x = Inr (g x)) \<Longrightarrow> collect f xs = Inr (map g xs)"
  by (induction xs) auto

lemma collect_nth:
  "collect f xs = Inr ys \<Longrightarrow> i < length xs \<Longrightarrow> f (xs ! i) = Inr (ys ! i)"
proof (induction xs arbitrary: ys i)
  case Nil
  then show ?case by simp
next
  case (Cons x xs)
  then show ?case
    by (cases i) (auto split: sum.splits)
qed

lemma unat_table_offset:
  assumes "unat (numPrimary raw) * unat (numTables raw) < 2 ^ 64" and "t < numTables raw"
  shows "unat (t * numPrimary raw) = unat t * unat (numPrimary raw)"
proof -
  have "unat t \<le> unat (numTables raw)"
    using assms(2) by (simp add: word_less_nat_alt)
  then have "unat t * unat (numPrimary raw) \<le> unat (numTables raw) * unat (numPrimary raw)"
    by (rule mult_le_mono1)
  also have "\<dots> < 2 ^ 64"
    using assms(1) by (simp only: mult.commute)
  finally have "unat t * unat (numPrimary raw) < 2 ^ LENGTH(64)"
    by simp
  then show ?thesis
    by (simp only: unat_mult_lem [THEN iffD1])
qed

lemma unat_next_table:
  assumes "t < (n :: SizeType)"
  shows "unat (t + 1) = Suc (unat t)"
proof -
  have "unat t < unat n"
    using assms by (simp add: word_less_nat_alt)
  moreover have "unat n < 2 ^ LENGTH(64)"
    by (rule unsigned_less)
  ultimately have "unat t + unat (1 :: SizeType) < 2 ^ LENGTH(64)"
    by simp
  then have "unat (t + 1) = unat t + unat (1 :: SizeType)"
    by (simp only: unat_add_lem [THEN iffD1])
  then show ?thesis
    by simp
qed

lemma table_slice_inside:
  assumes "unat (numPrimary raw) * unat (numTables raw) < 2 ^ 64"
    and "length (primaryKey raw) = unat (numPrimary raw) * unat (numTables raw)"
    and "t < numTables raw"
  shows "unat (t * numPrimary raw) + unat (numPrimary raw) \<le> length (primaryKey raw)"
proof -
  have "Suc (unat t) \<le> unat (numTables raw)"
    using assms(3) by (simp add: word_less_nat_alt)
  then have "Suc (unat t) * unat (numPrimary raw) \<le> unat (numTables raw) * unat (numPrimary raw)"
    by (rule mult_le_mono1)
  then show ?thesis
    using unat_table_offset [OF assms(1,3)] assms(2) by (simp add: mult.commute)
qed

lemma extractPrimaryKey_table_key:
  assumes "unat (numPrimary raw) * unat (numTables raw) < 2 ^ 64"
    and "length (primaryKey raw) = unat (numPrimary raw) * unat (numTables raw)"
    and "t < numTables raw"
  shows "extractPrimaryKey raw t cvrtKey = Inr (table_key raw cvrtKey (unat t))"
  using extractPrimaryKey_eq [OF table_slice_inside [OF assms], of cvrtKey]
  by (simp add: table_key_def del: power_numeral)

lemma length_table_key: "length (table_key raw cvrtKey j) \<le> unat (numPrimary raw)"
proof -
  have "length (table_key raw cvrtKey j) \<le> length (primaryKey_slice raw (of_nat j))"
    unfolding table_key_def length_map by (rule length_filter_le)
  then show ?thesis
    by (simp add: primaryKey_slice_def)
qed

lemma createLiveOil_loop_eq:
  assumes nowrap: "unat (numPrimary raw) * unat (numTables raw) < 2 ^ 64"
    and pk: "length (primaryKey raw) = unat (numPrimary raw) * unat (numTables raw)"
    and sti: "length sti = unat (numPrimary raw) * unat (numTables raw)"
  shows "createLiveOil_loop raw cvrtKey sti t ret =
           Inr (ret @ map (live_model raw cvrtKey sti) [unat t ..< unat (numTables raw)])"
  using assms
proof (induction raw cvrtKey sti t ret rule: createLiveOil_loop.induct)
  case (1 raw cvrtKey sti t ret)
  let ?np = "unat (numPrimary raw)"
  let ?nt = "unat (numTables raw)"
  show ?case
  proof (cases "t < numTables raw")
    case True
    let ?k = "table_key raw cvrtKey (unat t)"
    have lt: "unat t < ?nt"
      using True by (simp add: word_less_nat_alt)
    have k: "extractPrimaryKey raw t cvrtKey = Inr ?k"
      using "1.prems"(1,2) True by (rule extractPrimaryKey_table_key)
    have off: "unat ((t + 0) * numPrimary raw) = unat t * ?np"
      using unat_table_offset [OF "1.prems"(1) True] by simp
    have "unat t * ?np + ?np \<le> ?nt * ?np"
      using lt by (metis Suc_leI mult_Suc mult_le_mono1 add.commute)
    then have fits: "unat ((t + 0) * numPrimary raw) + length ?k \<le> length sti"
      using length_table_key [of raw cvrtKey "unat t"] "1.prems"(3) off
      by (simp add: mult.commute)
    have model: "LiveOil \<lparr> key = ?k,
                   propInterp = take (unat ((t + 0) * numPrimary raw) + length ?k
                                        - unat ((t + 0) * numPrimary raw))
                                  (drop (unat ((t + 0) * numPrimary raw)) sti) \<rparr>
                 = live_model raw cvrtKey sti (unat t)"
      by (simp add: live_model_def unat_table_offset [OF "1.prems"(1) True])
    have step: "createLiveOil_loop raw cvrtKey sti t ret =
                  createLiveOil_loop raw cvrtKey sti (t + 1)
                    (ret @ [live_model raw cvrtKey sti (unat t)])"
      using True fits
      by (subst createLiveOil_loop.simps)
         (simp add: Let_def k live_model_def unat_table_offset [OF "1.prems"(1) True])
    have ih: "createLiveOil_loop raw cvrtKey sti (t + 1)
                (ret @ [live_model raw cvrtKey sti (unat t)]) =
              Inr ((ret @ [live_model raw cvrtKey sti (unat t)]) @
                   map (live_model raw cvrtKey sti) [unat (t + 1) ..< ?nt])"
      using "1.IH" [OF True k refl refl fits "1.prems", unfolded model] by simp
    have "[unat t ..< ?nt] = unat t # [unat (t + 1) ..< ?nt]"
      using lt unat_next_table [OF True] by (simp add: upt_conv_Cons)
    then show ?thesis
      by (simp add: step ih)
  next
    case False
    then have "[unat t ..< ?nt] = []"
      by (simp add: word_less_nat_alt)
    then show ?thesis
      using False by (subst createLiveOil_loop.simps) simp
  qed
qed

lemma filter_upt_Suc:
  "filter Q [0 ..< Suc n] = (if Q 0 then [0] else []) @ map Suc (filter (\<lambda>j. Q (Suc j)) [0 ..< n])"
proof -
  have "[0 ..< Suc n] = 0 # map Suc [0 ..< n]"
    by (simp add: upt_conv_Cons map_Suc_upt del: upt_Suc)
  then show ?thesis
    by (simp add: filter_map comp_def del: upt_Suc)
qed

lemma leading_slots_iff:
  "[0 ..< length (filter P xs)] = filter (\<lambda>j. P (xs ! j)) [0 ..< length xs]
     \<longleftrightarrow> (\<forall>x \<in> set (dropWhile P xs). \<not> P x)"
proof (induction xs)
  case Nil
  then show ?case by simp
next
  case (Cons x xs)
  let ?S = "filter (\<lambda>j. P (xs ! j)) [0 ..< length xs]"
  have slots: "filter (\<lambda>j. P ((x # xs) ! j)) [0 ..< length (x # xs)]
                 = (if P x then [0] else []) @ map Suc ?S"
    using filter_upt_Suc [of "\<lambda>j. P ((x # xs) ! j)" "length xs"] by simp
  show ?case
  proof (cases "P x")
    case True
    have "[0 ..< Suc (length (filter P xs))] = 0 # map Suc [0 ..< length (filter P xs)]"
      by (simp add: upt_conv_Cons map_Suc_upt del: upt_Suc)
    then have "[0 ..< length (filter P (x # xs))] = filter (\<lambda>j. P ((x # xs) ! j)) [0 ..< length (x # xs)]
             \<longleftrightarrow> map Suc [0 ..< length (filter P xs)] = map Suc ?S"
      using True slots by simp
    also have "\<dots> \<longleftrightarrow> [0 ..< length (filter P xs)] = ?S"
      by (simp add: inj_map_eq_map)
    finally show ?thesis
      using Cons.IH True by simp
  next
    case False
    have none: "(\<forall>y \<in> set xs. \<not> P y) \<longleftrightarrow> filter P xs = []"
      by (simp add: filter_empty_conv)
    have "[0 ..< length (filter P xs)] = map Suc ?S \<longleftrightarrow> filter P xs = []"
    proof
      assume eq: "[0 ..< length (filter P xs)] = map Suc ?S"
      show "filter P xs = []"
      proof (rule ccontr)
        assume "filter P xs \<noteq> []"
        then have "0 \<in> set [0 ..< length (filter P xs)]"
          by simp
        with eq have "0 \<in> set (map Suc ?S)"
          by simp
        then show False
          by auto
      qed
    next
      assume e: "filter P xs = []"
      then have "?S = []"
        by (auto simp: filter_empty_conv)
      with e show "[0 ..< length (filter P xs)] = map Suc ?S"
        by simp
    qed
    then show ?thesis
      using False slots none by simp
  qed
qed

lemma fromRawData_length:
  "fromRawData raw factory = Inr xs \<Longrightarrow> length xs = unat (numPrimary raw * numTables raw)"
  by (auto simp: fromRawData_def dest: collect_length)

lemma unat_table_count:
  "unat (numPrimary raw) * unat (numTables raw) < 2 ^ 64 \<Longrightarrow>
   unat (numPrimary raw * numTables raw) = unat (numPrimary raw) * unat (numTables raw)"
  by (simp add: unat_mult_lem [THEN iffD1])

lemma createLiveOil_Inr:
  assumes "createLiveOil ext raw usys = Inr ms"
  shows "\<exists>u sti. createUnitSystem ext usys = Inr u
           \<and> fromRawData raw
                 (liveOilFactory ext (ToSI_disGas ext u, deadOilUnitConverter_usys ext u) raw)
               = Inr sti
           \<and> createLiveOil_loop raw (ToSI_disGas ext u) sti 0 [] = Inr ms"
  using assms
  by (auto simp: createLiveOil_def liveOilUnitConverter_def split: sum.splits)

lemma createLiveOil_eq:
  assumes nowrap: "unat (numPrimary raw) * unat (numTables raw) < 2 ^ 64"
    and pk: "length (primaryKey raw) = unat (numPrimary raw * numTables raw)"
    and u: "createUnitSystem ext usys = Inr u"
    and sti: "fromRawData raw
                (liveOilFactory ext (ToSI_disGas ext u, deadOilUnitConverter_usys ext u) raw)
              = Inr sti"
  shows "createLiveOil ext raw usys =
           Inr (map (live_model raw (ToSI_disGas ext u) sti) [0 ..< unat (numTables raw)])"
proof -
  have len: "length sti = unat (numPrimary raw) * unat (numTables raw)"
    using fromRawData_length [OF sti] unat_table_count [OF nowrap] by simp
  have pk': "length (primaryKey raw) = unat (numPrimary raw) * unat (numTables raw)"
    using pk unat_table_count [OF nowrap] by simp
  show ?thesis
    using createLiveOil_loop_eq [OF nowrap pk' len, of "ToSI_disGas ext u" 0 "[]"]
    by (simp add: createLiveOil_def liveOilUnitConverter_def u sti)
qed

lemma liveOilFactory_catches:
  assumes "\<forall>e. StI_ctor ext raw i (indep (snd cvrt)) (column (snd cvrt)) = Inl e
             \<longrightarrow> (\<exists>m. e = invalid_argument m)"
  shows "liveOilFactory ext cvrt raw i
           = Inr (StI_or_invalid ext raw (indep (snd cvrt)) (column (snd cvrt)) i)"
  using assms
  by (auto simp: liveOilFactory_def StI_or_invalid_def split: sum.splits failure.splits)

lemma take_drop_nth:
  "m + k \<le> length xs \<Longrightarrow> take k (drop m xs) = map (\<lambda>j. xs ! (m + j)) [0 ..< k]"
  by (rule nth_equalityI) simp_all

text \<open>
  Claim C8. Let a live oil table pass validation, let its size products not wrap around,
  and let the unit system exist. If the constructor of the inner interpolant throws
  \<open>std::invalid_argument\<close> for sub-table \<open>i0\<close>, and no constructor call throws anything
  else, then construction succeeds: the array of inner interpolants holds the placeholder
  at \<open>i0\<close> and the constructed interpolant wherever the constructor returned one, and
  every table has its function.
\<close>

theorem createLiveOil_substitutes_placeholder:
  assumes valid: "\<not> invariant_violated raw"
    and live: "1 < numPrimary raw"
    and nowrap: "unat (numPrimary raw) * unat (numTables raw) < 2 ^ 64"
    and u: "createUnitSystem ext usys = Inr u"
    and others: "\<forall>i < unat (numPrimary raw) * unat (numTables raw). \<forall>e.
                   StI_ctor ext raw i (indep (deadOilUnitConverter_usys ext u))
                     (column (deadOilUnitConverter_usys ext u)) = Inl e
                   \<longrightarrow> (\<exists>m. e = invalid_argument m)"
    and i0: "i0 < unat (numPrimary raw) * unat (numTables raw)"
    and fails: "StI_ctor ext raw i0 (indep (deadOilUnitConverter_usys ext u))
                  (column (deadOilUnitConverter_usys ext u)) = Inl (invalid_argument m0)"
  shows "\<exists>sti ms.
           fromRawData raw
             (liveOilFactory ext (ToSI_disGas ext u, deadOilUnitConverter_usys ext u) raw)
             = Inr sti
           \<and> sti = map (StI_or_invalid ext raw (indep (deadOilUnitConverter_usys ext u))
                         (column (deadOilUnitConverter_usys ext u)))
                    [0 ..< unat (numPrimary raw) * unat (numTables raw)]
           \<and> sti ! i0 = StI_invalid ext
           \<and> createPVTFunction ext raw usys = Inr ms
           \<and> ms = map (live_model raw (ToSI_disGas ext u) sti) [0 ..< unat (numTables raw)]"
proof -
  let ?cvrt = "(ToSI_disGas ext u, deadOilUnitConverter_usys ext u)"
  let ?n = "unat (numPrimary raw) * unat (numTables raw)"
  let ?g = "StI_or_invalid ext raw (indep (deadOilUnitConverter_usys ext u))
              (column (deadOilUnitConverter_usys ext u))"
  have "liveOilFactory ext ?cvrt raw i = Inr (?g i)" if "i \<in> set [0 ..< ?n]" for i
    using liveOilFactory_catches [of ext raw i ?cvrt] others that by simp
  then have "collect (liveOilFactory ext ?cvrt raw) [0 ..< ?n] = Inr (map ?g [0 ..< ?n])"
    by (rule collect_map)
  then have sti: "fromRawData raw (liveOilFactory ext ?cvrt raw) = Inr (map ?g [0 ..< ?n])"
    by (simp add: fromRawData_def unat_table_count [OF nowrap])
  have placeholder: "map ?g [0 ..< ?n] ! i0 = StI_invalid ext"
    using i0 fails by (simp add: StI_or_invalid_def)
  have pk: "length (primaryKey raw) = unat (numPrimary raw * numTables raw)"
    using valid by (simp add: invariant_violated_def)
  have "numPrimary raw \<noteq> 1"
    using live by simp
  then have "createPVTFunction ext raw usys = createLiveOil ext raw usys"
    using createPVTFunction_valid [OF valid, of ext usys] by simp
  also have "\<dots> = Inr (map (live_model raw (ToSI_disGas ext u) (map ?g [0 ..< ?n]))
                        [0 ..< unat (numTables raw)])"
    using nowrap pk u sti by (rule createLiveOil_eq)
  finally show ?thesis
    using sti placeholder by blast
qed

text \<open>
  Claim C9. If construction from a live oil table succeeds (the size products not
  wrapping around), the function of table \<open>t\<close> pairs the key of length \<open>k\<close> with the
  interpolants at positions \<open>t * numPrimary\<close> up to \<open>t * numPrimary + k - 1\<close>, whichever slots
  of the slice held sentinels. The slots so paired are those of the kept key entries if
  and only if no kept entry follows a sentinel.
\<close>

theorem createLiveOil_pairs_leading_interpolants:
  assumes valid: "\<not> invariant_violated raw"
    and live: "1 < numPrimary raw"
    and nowrap: "unat (numPrimary raw) * unat (numTables raw) < 2 ^ 64"
    and built: "createPVTFunction ext raw usys = Inr ms"
    and t: "t < unat (numTables raw)"
  shows "\<exists>u sti.
           createUnitSystem ext usys = Inr u
           \<and> fromRawData raw
                 (liveOilFactory ext (ToSI_disGas ext u, deadOilUnitConverter_usys ext u) raw)
               = Inr sti
           \<and> length sti = unat (numPrimary raw) * unat (numTables raw)
           \<and> length ms = unat (numTables raw)
           \<and> ms ! t =
                LiveOil \<lparr> key = table_key raw (ToSI_disGas ext u) t,
                          propInterp =
                            map (\<lambda>j. sti ! (t * unat (numPrimary raw) + j))
                              [0 ..< length (table_key raw (ToSI_disGas ext u) t)] \<rparr>
           \<and> ([0 ..< length (table_key raw (ToSI_disGas ext u) t)]
                  = valid_slots (primaryKey_slice raw (of_nat t))
                \<longleftrightarrow> sentinels_trailing (primaryKey_slice raw (of_nat t)))"
proof -
  have "numPrimary raw \<noteq> 1"
    using live by simp
  then have "createLiveOil ext raw usys = Inr ms"
    using createPVTFunction_valid [OF valid, of ext usys] built by simp
  then obtain u sti where
    u: "createUnitSystem ext usys = Inr u" and
    sti: "fromRawData raw
            (liveOilFactory ext (ToSI_disGas ext u, deadOilUnitConverter_usys ext u) raw)
          = Inr sti" and
    live_ms: "createLiveOil ext raw usys = Inr ms"
    using createLiveOil_Inr by blast
  let ?k = "table_key raw (ToSI_disGas ext u) t"
  let ?np = "unat (numPrimary raw)"
  have pk: "length (primaryKey raw) = unat (numPrimary raw * numTables raw)"
    using valid by (simp add: invariant_violated_def)
  have len: "length sti = ?np * unat (numTables raw)"
    using fromRawData_length [OF sti] unat_table_count [OF nowrap] by simp
  have ms: "ms = map (live_model raw (ToSI_disGas ext u) sti) [0 ..< unat (numTables raw)]"
    using createLiveOil_eq [OF nowrap pk u sti] live_ms by simp
  have "t * ?np + ?np \<le> unat (numTables raw) * ?np"
    using t by (metis Suc_leI mult_Suc mult_le_mono1 add.commute)
  then have "t * ?np + length ?k \<le> length sti"
    using length_table_key [of raw "ToSI_disGas ext u" t] len by (simp add: mult.commute)
  then have inner: "take (length ?k) (drop (t * ?np) sti)
                      = map (\<lambda>j. sti ! (t * ?np + j)) [0 ..< length ?k]"
    by (rule take_drop_nth)
  have model: "ms ! t = LiveOil \<lparr> key = ?k,
                 propInterp = map (\<lambda>j. sti ! (t * ?np + j)) [0 ..< length ?k] \<rparr>"
    using t by (simp add: ms live_model_def inner)
  have slots: "[0 ..< length ?k] = valid_slots (primaryKey_slice raw (of_nat t))
                 \<longleftrightarrow> sentinels_trailing (primaryKey_slice raw (of_nat t))"
    unfolding table_key_def length_map valid_slots_def sentinels_trailing_def
    by (rule leading_slots_iff)
  from u sti len ms model slots show ?thesis
    by auto
qed


lemma createPVTFunction_live_table:
  "createPVTFunction sample_ext live_table 1
     = Inr [LiveOil \<lparr> key = [Finite 0, Finite 50], propInterp = [[Finite 10000000], []] \<rparr>]"
  by code_simp

lemma createPVTFunction_gap_table:
  "createPVTFunction sample_ext gap_table 1
     = Inr [LiveOil \<lparr> key = [Finite 0, Finite 50], propInterp = [[Finite 10000000], []] \<rparr>]"
  by code_simp

theorem createLiveOil_substitutes_placeholder_witness:
  "\<exists>sti. fromRawData live_table
            (liveOilFactory sample_ext
               (ToSI_disGas sample_ext 1, deadOilUnitConverter_usys sample_ext 1) live_table)
            = Inr sti
         \<and> sti ! 1 = StI_invalid sample_ext
         \<and> createPVTFunction sample_ext live_table 1
             = Inr [LiveOil \<lparr> key = [Finite 0, Finite 50],
                              propInterp = [[Finite 10000000], StI_invalid sample_ext] \<rparr>]"
proof -
  let ?cx = "indep (deadOilUnitConverter_usys sample_ext 1)"
  let ?cy = "column (deadOilUnitConverter_usys sample_ext 1)"
  have valid: "\<not> invariant_violated live_table"
    by (simp add: invariant_violated_def live_table_def)
  have live: "1 < numPrimary live_table"
    by (simp add: live_table_def)
  have nowrap: "unat (numPrimary live_table) * unat (numTables live_table) < 2 ^ 64"
    by (simp add: live_table_def)
  have u: "createUnitSystem sample_ext 1 = Inr 1"
    by (simp add: sample_ext_def)
  have others: "\<forall>i < unat (numPrimary live_table) * unat (numTables live_table). \<forall>e.
                  StI_ctor sample_ext live_table i ?cx ?cy = Inl e
                  \<longrightarrow> (\<exists>m. e = invalid_argument m)"
    by (simp add: sample_ext_def)
  have i0: "1 < unat (numPrimary live_table) * unat (numTables live_table)"
    by (simp add: live_table_def)
  have fails: "StI_ctor sample_ext live_table 1 ?cx ?cy
                 = Inl (invalid_argument ''No Valid Table Nodes'')"
    by (simp add: sample_ext_def sample_nodes_def live_table_def)
  from createLiveOil_substitutes_placeholder [OF valid live nowrap u others i0 fails]
  obtain sti ms where
    sti: "fromRawData live_table
            (liveOilFactory sample_ext
               (ToSI_disGas sample_ext 1, deadOilUnitConverter_usys sample_ext 1) live_table)
            = Inr sti" and
    placeholder: "sti ! 1 = StI_invalid sample_ext" and
    ms: "createPVTFunction sample_ext live_table 1 = Inr ms"
    by blast
  have "StI_invalid sample_ext = []"
    by (simp add: sample_ext_def)
  with ms have "createPVTFunction sample_ext live_table 1
             = Inr [LiveOil \<lparr> key = [Finite 0, Finite 50],
                              propInterp = [[Finite 10000000], StI_invalid sample_ext] \<rparr>]"
    by (simp add: createPVTFunction_live_table)
  with sti placeholder show ?thesis
    by blast
qed

theorem createLiveOil_pairs_leading_interpolants_witness:
  "[0 ..< length (table_key gap_table (ToSI_disGas sample_ext 1) 0)] = [0, 1]
   \<and> valid_slots (primaryKey_slice gap_table (of_nat 0)) = [1, 2]
   \<and> \<not> sentinels_trailing (primaryKey_slice gap_table (of_nat 0))
   \<and> valid_slots (primaryKey_slice live_table (of_nat 0)) = [0, 1]
   \<and> sentinels_trailing (primaryKey_slice live_table (of_nat 0))"
proof -
  have valid: "\<not> invariant_violated gap_table" "\<not> invariant_violated live_table"
    by (simp_all add: invariant_violated_def gap_table_def live_table_def)
  have live: "1 < numPrimary gap_table" "1 < numPrimary live_table"
    by (simp_all add: gap_table_def live_table_def)
  have nowrap: "unat (numPrimary gap_table) * unat (numTables gap_table) < 2 ^ 64"
    "unat (numPrimary live_table) * unat (numTables live_table) < 2 ^ 64"
    by (simp_all add: gap_table_def live_table_def)
  have t: "0 < unat (numTables gap_table)" "0 < unat (numTables live_table)"
    by (simp_all add: gap_table_def live_table_def)
  have u: "createUnitSystem sample_ext 1 = Inr 1"
    by (simp add: sample_ext_def)
  have gap_slice: "primaryKey_slice gap_table (of_nat 0) = [Finite (10 ^ 21), Finite 0, Finite 50]"
    by (simp add: primaryKey_slice_def gap_table_def live_table_def)
  have live_slice: "primaryKey_slice live_table (of_nat 0) = [Finite 0, Finite 50, Finite (10 ^ 21)]"
    by (simp add: primaryKey_slice_def live_table_def)
  have gap_slots: "valid_slots (primaryKey_slice gap_table (of_nat 0)) = [1, 2]"
    unfolding gap_slice by (simp add: valid_slots_def upt_rec)
  have live_slots: "valid_slots (primaryKey_slice live_table (of_nat 0)) = [0, 1]"
    unfolding live_slice by (simp add: valid_slots_def upt_rec)
  from createLiveOil_pairs_leading_interpolants
         [OF valid(1) live(1) nowrap(1) createPVTFunction_gap_table t(1)] u
  have gap: "[0 ..< length (table_key gap_table (ToSI_disGas sample_ext 1) 0)]
               = valid_slots (primaryKey_slice gap_table (of_nat 0))
             \<longleftrightarrow> sentinels_trailing (primaryKey_slice gap_table (of_nat 0))"
    by auto
  from createLiveOil_pairs_leading_interpolants
         [OF valid(2) live(2) nowrap(2) createPVTFunction_live_table t(2)] u
  have live: "[0 ..< length (table_key live_table (ToSI_disGas sample_ext 1) 0)]
               = valid_slots (primaryKey_slice live_table (of_nat 0))
             \<longleftrightarrow> sentinels_trailing (primaryKey_slice live_table (of_nat 0))"
    by auto
  have gap_key: "[0 ..< length (table_key gap_table (ToSI_disGas sample_ext 1) 0)] = [0, 1]"
    unfolding table_key_def gap_slice by (simp add: upt_rec)
  have live_key: "[0 ..< length (table_key live_table (ToSI_disGas sample_ext 1) 0)] = [0, 1]"
    unfolding table_key_def live_slice by (simp add: upt_rec)
  from gap gap_key gap_slots have "\<not> sentinels_trailing (primaryKey_slice gap_table (of_nat 0))"
    by simp
  moreover from live live_key live_slots
  have "sentinels_trailing (primaryKey_slice live_table (of_nat 0))"
    by simp
  ultimately show ?thesis
    using gap_key gap_slots live_slots by simp
qed

section \<open>Copies of a handle\<close>

lemma validateRegIdx_cong:
  "length (Impl_eval i) = length (Impl_eval j) \<Longrightarrow> validateRegIdx i = validateRegIdx j"
  by (rule ext) (simp add: validateRegIdx_def)

lemma same_view_same_answers:
  assumes "Oil_view st1 a = Oil_view st2 b"
  shows "same_answers ext st1 a st2 b"
proof (cases "Oil_impl st1 a")
  case (Inl e)
  with assms have "Oil_impl st2 b = Inl e"
    by (auto simp: Oil_view_def split: sum.splits)
  with Inl show ?thesis
    by (simp add: same_answers_def Oil_formationVolumeFactor_def Oil_viscosity_def
          Oil_surfaceMassDensity_def Oil_getPvtCurve_def)
next
  case (Inr i)
  with assms obtain j where j: "Oil_impl st2 b = Inr j"
    and objs: "map (pvxo_at st1) (Impl_eval i) = map (pvxo_at st2) (Impl_eval j)"
    and rho: "Impl_rhoS i = Impl_rhoS j"
    by (auto simp: Oil_view_def split: sum.splits)
  from objs have len: "length (Impl_eval i) = length (Impl_eval j)"
    by (rule map_eq_imp_length_eq)
  have v: "validateRegIdx i = validateRegIdx j"
    using len by (rule validateRegIdx_cong)
  have at: "pvxo_at st1 (Impl_eval i ! unat r) = pvxo_at st2 (Impl_eval j ! unat r)"
    if "validateRegIdx j r = Inr u" for r u
  proof -
    from that have "unat r < length (Impl_eval j)"
      by (simp add: validateRegIdx_def split: if_splits)
    with len objs show ?thesis
      by (metis nth_map)
  qed
  show ?thesis
    unfolding same_answers_def Oil_formationVolumeFactor_def Oil_viscosity_def
      Oil_surfaceMassDensity_def Oil_getPvtCurve_def Impl_formationVolumeFactor_def
      Impl_viscosity_def Impl_surfaceMassDensity_def Impl_getPvtCurve_def
    by (auto simp: Inr j v rho at split: sum.splits)
qed

lemma PVxO_clone_Inr:
  assumes "PVxO_clone st p = Inr (st1, q)"
  shows "\<exists>m. pvxo_at st p = Some m \<and> q = brk st
           \<and> st1 = st\<lparr> pvxo_at := (pvxo_at st)(brk st \<mapsto> m), brk := Suc (brk st) \<rparr>"
  using assms
  by (auto simp: PVxO_clone_def new_pvxo_def split: option.splits PVxOBase.splits)

lemma clone_effect:
  assumes "clone st src = Inr (st', dest)" and "\<forall>p \<in> set src. p < brk st"
  shows "impl_at st' = impl_at st \<and> oil_at st' = oil_at st
         \<and> brk st' = brk st + length src
         \<and> (\<forall>q. q < brk st \<longrightarrow> pvxo_at st' q = pvxo_at st q)
         \<and> (\<forall>q. brk st' \<le> q \<longrightarrow> pvxo_at st' q = pvxo_at st q)
         \<and> dest = [brk st ..< brk st + length src]
         \<and> map (pvxo_at st') dest = map (pvxo_at st) src
         \<and> (\<forall>q \<in> set dest. pvxo_at st' q \<noteq> None)"
  using assms
proof (induction src arbitrary: st st' dest)
  case Nil
  then show ?case by simp
next
  case (Cons p src)
  from Cons.prems(1) obtain st1 q dest' where
    c: "PVxO_clone st p = Inr (st1, q)" and
    r: "clone st1 src = Inr (st', dest')" and
    d: "dest = q # dest'"
    by (auto split: sum.splits prod.splits)
  from PVxO_clone_Inr [OF c] obtain m where
    m: "pvxo_at st p = Some m" and q: "q = brk st" and
    st1: "st1 = st\<lparr> pvxo_at := (pvxo_at st)(brk st \<mapsto> m), brk := Suc (brk st) \<rparr>"
    by blast
  have below: "\<forall>p \<in> set src. p < brk st1"
    using Cons.prems(2) st1 by auto
  note ih = Cons.IH [OF r below]
  have old: "\<forall>x \<in> set src. pvxo_at st1 x = pvxo_at st x"
    using Cons.prems(2) st1 by auto
  have "pvxo_at st' q = Some m"
    using ih q st1 by simp
  moreover have "map (pvxo_at st1) src = map (pvxo_at st) src"
    using old by simp
  moreover have "[brk st ..< brk st + length (p # src)] = brk st # [brk st1 ..< brk st1 + length src]"
    using st1 by (simp add: upt_conv_Cons del: upt_Suc)
  ultimately show ?case
    using ih d q m st1 by auto
qed

lemma wf_ownedD:
  "wf_store st \<Longrightarrow> oil_at st a = Some oil \<Longrightarrow> Oil_pImpl oil = Some p \<Longrightarrow> impl_at st p \<noteq> None"
  unfolding wf_store_def by blast

lemma wf_ownerD:
  "wf_store st \<Longrightarrow> oil_at st a = Some oil \<Longrightarrow> oil_at st b = Some oil' \<Longrightarrow>
   Oil_pImpl oil = Some p \<Longrightarrow> Oil_pImpl oil' = Some p \<Longrightarrow> a = b"
  unfolding wf_store_def by blast

lemma wf_implD:
  "wf_store st \<Longrightarrow> impl_at st p = Some i \<Longrightarrow>
   p < brk st \<and> (\<forall>q \<in> set (Impl_eval i). pvxo_at st q \<noteq> None)"
  unfolding wf_store_def by blast

lemma wf_disjointD:
  "wf_store st \<Longrightarrow> impl_at st p = Some i \<Longrightarrow> impl_at st p' = Some i' \<Longrightarrow> p \<noteq> p' \<Longrightarrow>
   set (Impl_eval i) \<inter> set (Impl_eval i') = {}"
  unfolding wf_store_def by blast

lemma wf_pvxoD: "wf_store st \<Longrightarrow> pvxo_at st q \<noteq> None \<Longrightarrow> q < brk st"
  unfolding wf_store_def by blast

lemma wf_storeI:
  assumes "\<And>a oil p. oil_at st a = Some oil \<Longrightarrow> Oil_pImpl oil = Some p \<Longrightarrow> impl_at st p \<noteq> None"
    and "\<And>a b oil oil' p. oil_at st a = Some oil \<Longrightarrow> oil_at st b = Some oil' \<Longrightarrow>
           Oil_pImpl oil = Some p \<Longrightarrow> Oil_pImpl oil' = Some p \<Longrightarrow> a = b"
    and "\<And>p i. impl_at st p = Some i \<Longrightarrow> p < brk st"
    and "\<And>p i q. impl_at st p = Some i \<Longrightarrow> q \<in> set (Impl_eval i) \<Longrightarrow> pvxo_at st q \<noteq> None"
    and "\<And>p p' i i'. impl_at st p = Some i \<Longrightarrow> impl_at st p' = Some i' \<Longrightarrow> p \<noteq> p' \<Longrightarrow>
           set (Impl_eval i) \<inter> set (Impl_eval i') = {}"
    and "\<And>q. pvxo_at st q \<noteq> None \<Longrightarrow> q < brk st"
  shows "wf_store st"
  unfolding wf_store_def
  using assms by blast

lemma Oil_view_alt:
  "Oil_view st x =
     (case oil_at st x of
        None \<Rightarrow> Inl undefined_behaviour
      | Some oil \<Rightarrow>
          (case Oil_pImpl oil of
             None \<Rightarrow> Inl undefined_behaviour
           | Some a \<Rightarrow> impl_view st a))"
  by (simp add: Oil_view_def Oil_impl_def impl_view_def split: option.splits)

lemma set_pImpl_simps:
  "pvxo_at (set_pImpl st x p) = pvxo_at st"
  "impl_at (set_pImpl st x p) = impl_at st"
  "brk (set_pImpl st x p) = brk st"
  "oil_at (set_pImpl st x p) = (oil_at st)(x \<mapsto> \<lparr> Oil_pImpl = p \<rparr>)"
  by (simp_all add: set_pImpl_def)

lemma impl_view_set_pImpl: "impl_view (set_pImpl st x p) a = impl_view st a"
  by (simp add: impl_view_def set_pImpl_simps split: option.splits)

lemma set_pImpl_view:
  "Oil_view (set_pImpl st x p) y =
     (if y = x then (case p of None \<Rightarrow> Inl undefined_behaviour | Some a \<Rightarrow> impl_view st a)
      else Oil_view st y)"
  by (simp add: Oil_view_alt set_pImpl_simps impl_view_set_pImpl split: option.splits)

lemma set_pImpl_wf:
  assumes wf: "wf_store st"
    and p: "\<And>a. p = Some a \<Longrightarrow> impl_at st a \<noteq> None"
    and other: "\<And>a y oil. p = Some a \<Longrightarrow> y \<noteq> x \<Longrightarrow> oil_at st y = Some oil
                  \<Longrightarrow> Oil_pImpl oil \<noteq> Some a"
  shows "wf_store (set_pImpl st x p)"
proof (rule wf_storeI)
  fix a oil q
  assume a: "oil_at (set_pImpl st x p) a = Some oil" and q: "Oil_pImpl oil = Some q"
  show "impl_at (set_pImpl st x p) q \<noteq> None"
  proof (cases "a = x")
    case True
    with a q have "p = Some q"
      by (auto simp: set_pImpl_simps)
    then show ?thesis
      using p by (simp add: set_pImpl_simps)
  next
    case False
    with a have "oil_at st a = Some oil"
      by (simp add: set_pImpl_simps)
    then show ?thesis
      using wf_ownedD [OF wf _ q] by (simp add: set_pImpl_simps)
  qed
next
  fix a b oil oil' q
  assume a: "oil_at (set_pImpl st x p) a = Some oil"
    and b: "oil_at (set_pImpl st x p) b = Some oil'"
    and q: "Oil_pImpl oil = Some q" "Oil_pImpl oil' = Some q"
  show "a = b"
  proof (cases "a = x"; cases "b = x")
    assume "a = x" "b = x"
    then show ?thesis by simp
  next
    assume ax: "a = x" and bx: "b \<noteq> x"
    from ax a q have "p = Some q"
      by (auto simp: set_pImpl_simps)
    moreover from bx b have "oil_at st b = Some oil'"
      by (simp add: set_pImpl_simps)
    ultimately show ?thesis
      using other [of q b oil'] bx q by blast
  next
    assume ax: "a \<noteq> x" and bx: "b = x"
    from bx b q have "p = Some q"
      by (auto simp: set_pImpl_simps)
    moreover from ax a have "oil_at st a = Some oil"
      by (simp add: set_pImpl_simps)
    ultimately show ?thesis
      using other [of q a oil] ax q by blast
  next
    assume "a \<noteq> x" "b \<noteq> x"
    with a b have "oil_at st a = Some oil" "oil_at st b = Some oil'"
      by (simp_all add: set_pImpl_simps)
    then show ?thesis
      using q by (rule wf_ownerD [OF wf])
  qed
next
  fix q i
  assume "impl_at (set_pImpl st x p) q = Some i"
  then show "q < brk (set_pImpl st x p)"
    using wf_implD [OF wf, of q i] by (simp add: set_pImpl_simps)
next
  fix q i r
  assume "impl_at (set_pImpl st x p) q = Some i" "r \<in> set (Impl_eval i)"
  then show "pvxo_at (set_pImpl st x p) r \<noteq> None"
    using wf_implD [OF wf, of q i] by (simp add: set_pImpl_simps)
next
  fix q q' i i'
  assume "impl_at (set_pImpl st x p) q = Some i" "impl_at (set_pImpl st x p) q' = Some i'"
    "q \<noteq> q'"
  then show "set (Impl_eval i) \<inter> set (Impl_eval i') = {}"
    using wf_disjointD [OF wf, of q i q' i'] by (simp add: set_pImpl_simps)
next
  fix q
  assume "pvxo_at (set_pImpl st x p) q \<noteq> None"
  then show "q < brk (set_pImpl st x p)"
    using wf_pvxoD [OF wf, of q] by (simp add: set_pImpl_simps)
qed

lemma delete_pvxo_undefined: "delete_pvxo st p = Inl undefined_behaviour"
  by (simp add: delete_pvxo_def split: option.splits PVxOBase.splits)

lemma delete_pvxos_eq:
  "delete_pvxos st ps = (if ps = [] then Inr st else Inl undefined_behaviour)"
  by (cases ps) (simp_all add: delete_pvxo_undefined)

lemma delete_impl_eq:
  "delete_impl st a =
     (case impl_at st a of
        None \<Rightarrow> Inl undefined_behaviour
      | Some i \<Rightarrow>
          if Impl_eval i = [] then Inr (st\<lparr> impl_at := (impl_at st)(a := None) \<rparr>)
          else Inl undefined_behaviour)"
  by (simp add: delete_impl_def delete_pvxos_eq split: option.splits)

lemma delete_impl_Inr:
  assumes "delete_impl st a = Inr st'"
  shows "\<exists>i. impl_at st a = Some i
           \<and> pvxo_at st' = (\<lambda>p. if p \<in> set (Impl_eval i) then None else pvxo_at st p)
           \<and> impl_at st' = (impl_at st)(a := None)
           \<and> oil_at st' = oil_at st \<and> brk st' = brk st"
  using assms by (auto simp: delete_impl_eq split: option.splits if_splits)

lemma delete_impl_wf:
  assumes wf: "wf_store st" and un: "unowned st old" and del: "delete_impl st old = Inr st'"
  shows "wf_store st'"
proof -
  from delete_impl_Inr [OF del] obtain i where
    i: "impl_at st old = Some i" and
    pv: "pvxo_at st' = (\<lambda>p. if p \<in> set (Impl_eval i) then None else pvxo_at st p)" and
    im: "impl_at st' = (impl_at st)(old := None)" and
    oi: "oil_at st' = oil_at st" and bk: "brk st' = brk st"
    by blast
  have kept: "impl_at st q = Some j \<and> q \<noteq> old" if "impl_at st' q = Some j" for q j
    using that by (auto simp: im split: if_splits)
  show ?thesis
  proof (rule wf_storeI)
    fix a oil q
    assume a: "oil_at st' a = Some oil" and q: "Oil_pImpl oil = Some q"
    then have "q \<noteq> old"
      using un by (auto simp: unowned_def oi)
    moreover have "impl_at st q \<noteq> None"
      using wf_ownedD [OF wf _ q] a by (simp add: oi)
    ultimately show "impl_at st' q \<noteq> None"
      by (simp add: im)
  next
    fix a b oil oil' q
    assume "oil_at st' a = Some oil" "oil_at st' b = Some oil'"
      "Oil_pImpl oil = Some q" "Oil_pImpl oil' = Some q"
    then show "a = b"
      using wf_ownerD [OF wf] by (simp add: oi)
  next
    fix q j
    assume "impl_at st' q = Some j"
    then show "q < brk st'"
      using kept wf_implD [OF wf] by (simp add: bk)
  next
    fix q j r
    assume j: "impl_at st' q = Some j" and r: "r \<in> set (Impl_eval j)"
    from kept [OF j] have q: "impl_at st q = Some j" "q \<noteq> old"
      by simp_all
    then have "set (Impl_eval j) \<inter> set (Impl_eval i) = {}"
      using wf_disjointD [OF wf _ i] by blast
    with r have "r \<notin> set (Impl_eval i)"
      by blast
    moreover have "pvxo_at st r \<noteq> None"
      using wf_implD [OF wf q(1)] r by blast
    ultimately show "pvxo_at st' r \<noteq> None"
      by (simp add: pv)
  next
    fix q q' j j'
    assume "impl_at st' q = Some j" "impl_at st' q' = Some j'" "q \<noteq> q'"
    then show "set (Impl_eval j) \<inter> set (Impl_eval j') = {}"
      using kept wf_disjointD [OF wf] by blast
  next
    fix q
    assume "pvxo_at st' q \<noteq> None"
    then have "pvxo_at st q \<noteq> None"
      by (auto simp: pv split: if_splits)
    then show "q < brk st'"
      using wf_pvxoD [OF wf] by (simp add: bk)
  qed
qed

lemma delete_impl_impl_view:
  assumes wf: "wf_store st" and del: "delete_impl st old = Inr st'"
    and p: "p \<noteq> old"
  shows "impl_view st' p = impl_view st p"
proof -
  from delete_impl_Inr [OF del] obtain i where
    i: "impl_at st old = Some i" and
    pv: "pvxo_at st' = (\<lambda>p. if p \<in> set (Impl_eval i) then None else pvxo_at st p)" and
    im: "impl_at st' = (impl_at st)(old := None)"
    by blast
  show ?thesis
  proof (cases "impl_at st p")
    case None
    then show ?thesis
      using p by (simp add: impl_view_def im)
  next
    case (Some j)
    then have "set (Impl_eval j) \<inter> set (Impl_eval i) = {}"
      using wf_disjointD [OF wf _ i p] by blast
    then have "map (pvxo_at st') (Impl_eval j) = map (pvxo_at st) (Impl_eval j)"
      by (auto simp: pv)
    then show ?thesis
      using Some p by (simp add: impl_view_def im)
  qed
qed

lemma delete_impl_view:
  assumes wf: "wf_store st" and del: "delete_impl st old = Inr st'"
    and x: "\<And>oil. oil_at st x = Some oil \<Longrightarrow> Oil_pImpl oil \<noteq> Some old"
  shows "Oil_view st' x = Oil_view st x"
proof -
  have oil: "oil_at st' = oil_at st"
    using delete_impl_Inr [OF del] by auto
  show ?thesis
  proof (cases "oil_at st x")
    case None
    then show ?thesis
      by (simp add: Oil_view_alt oil)
  next
    case (Some h)
    show ?thesis
    proof (cases "Oil_pImpl h")
      case None
      with Some show ?thesis
        by (simp add: Oil_view_alt oil)
    next
      case (Some p)
      with x \<open>oil_at st x = Some h\<close> have "p \<noteq> old"
        by auto
      then show ?thesis
        using delete_impl_impl_view [OF wf del] Some \<open>oil_at st x = Some h\<close>
        by (simp add: Oil_view_alt oil)
    qed
  qed
qed

lemma new_impl_eq:
  "new_impl st i = (st2, a) \<longleftrightarrow>
     a = brk st \<and> st2 = st\<lparr> impl_at := (impl_at st)(brk st \<mapsto> i), brk := Suc (brk st) \<rparr>"
  by (auto simp: new_impl_def)

lemma fresh_impl:
  assumes wf: "wf_store st"
    and im: "impl_at st1 = impl_at st" and oi: "oil_at st1 = oil_at st"
    and bk: "brk st \<le> brk st1"
    and old: "\<And>q. q < brk st \<Longrightarrow> pvxo_at st1 q = pvxo_at st q"
    and top: "\<And>q. pvxo_at st1 q \<noteq> None \<Longrightarrow> q < brk st1"
    and ps: "\<And>q. q \<in> set ps \<Longrightarrow> brk st \<le> q \<and> pvxo_at st1 q \<noteq> None"
    and n: "new_impl st1 \<lparr> Impl_eval = ps, Impl_rhoS = r \<rparr> = (st2, a)"
  shows "wf_store st2" and "oil_at st2 = oil_at st" and "unowned st2 a"
    and "impl_at st2 a \<noteq> None"
    and "impl_view st2 a = Inr (map (pvxo_at st1) ps, r)"
    and "\<And>q. impl_at st q \<noteq> None \<Longrightarrow> impl_view st2 q = impl_view st q"
proof -
  from n have a: "a = brk st1"
    and pv2: "pvxo_at st2 = pvxo_at st1"
    and im2: "impl_at st2 = (impl_at st)(a \<mapsto> \<lparr> Impl_eval = ps, Impl_rhoS = r \<rparr>)"
    and oi2: "oil_at st2 = oil_at st"
    and bk2: "brk st2 = Suc (brk st1)"
    by (auto simp: new_impl_eq im oi)
  have below: "q < brk st" if "impl_at st q \<noteq> None" for q
    using that wf_implD [OF wf, of q] by auto
  have fresh: "impl_at st a = None"
  proof (rule ccontr)
    assume "impl_at st a \<noteq> None"
    then have "a < brk st"
      by (rule below)
    with a bk show False
      by simp
  qed
  have evals: "r' < brk st \<and> pvxo_at st1 r' = pvxo_at st r' \<and> pvxo_at st r' \<noteq> None"
    if "impl_at st q = Some i" "r' \<in> set (Impl_eval i)" for q i r'
  proof -
    have "pvxo_at st r' \<noteq> None"
      using wf_implD [OF wf that(1)] that(2) by blast
    then show ?thesis
      using wf_pvxoD [OF wf] old by simp
  qed
  show "oil_at st2 = oil_at st"
    by (rule oi2)
  show un: "unowned st2 a"
    unfolding unowned_def
  proof (intro allI impI)
    fix x oil
    assume "oil_at st2 x = Some oil"
    then have "oil_at st x = Some oil"
      by (simp add: oi2)
    then show "Oil_pImpl oil \<noteq> Some a"
      using wf_ownedD [OF wf, of x oil a] fresh by auto
  qed
  show "impl_at st2 a \<noteq> None"
    by (simp add: im2)
  show "impl_view st2 a = Inr (map (pvxo_at st1) ps, r)"
    by (simp add: impl_view_def im2 pv2)
  show frame: "impl_view st2 q = impl_view st q" if "impl_at st q \<noteq> None" for q
  proof -
    from that obtain i where i: "impl_at st q = Some i"
      by auto
    have "q \<noteq> a"
      using fresh that by auto
    moreover have "map (pvxo_at st1) (Impl_eval i) = map (pvxo_at st) (Impl_eval i)"
      using evals [OF i] by simp
    ultimately show ?thesis
      by (simp add: impl_view_def im2 pv2 i)
  qed
  show "wf_store st2"
  proof (rule wf_storeI)
    fix x oil q
    assume "oil_at st2 x = Some oil" "Oil_pImpl oil = Some q"
    then have "impl_at st q \<noteq> None"
      using wf_ownedD [OF wf] by (simp add: oi2)
    then show "impl_at st2 q \<noteq> None"
      by (simp add: im2)
  next
    fix x y oil oil' q
    assume "oil_at st2 x = Some oil" "oil_at st2 y = Some oil'"
      "Oil_pImpl oil = Some q" "Oil_pImpl oil' = Some q"
    then show "x = y"
      using wf_ownerD [OF wf] by (simp add: oi2)
  next
    fix q i
    assume "impl_at st2 q = Some i"
    then have "q = a \<or> impl_at st q \<noteq> None"
      by (auto simp: im2 split: if_splits)
    then show "q < brk st2"
      using below [of q] a bk by (auto simp: bk2)
  next
    fix q i r'
    assume i: "impl_at st2 q = Some i" and r': "r' \<in> set (Impl_eval i)"
    show "pvxo_at st2 r' \<noteq> None"
    proof (cases "q = a")
      case True
      with i r' have "r' \<in> set ps"
        by (auto simp: im2)
      then show ?thesis
        using ps by (simp add: pv2)
    next
      case False
      with i have "impl_at st q = Some i"
        by (simp add: im2)
      then show ?thesis
        using evals r' by (simp add: pv2)
    qed
  next
    fix q q' i i'
    assume i: "impl_at st2 q = Some i" and i': "impl_at st2 q' = Some i'" and ne: "q \<noteq> q'"
    have apart: "set ps \<inter> set (Impl_eval k) = {}" if "impl_at st c = Some k" for c k
    proof -
      have "\<forall>x \<in> set (Impl_eval k). x < brk st"
        using evals [OF that] by blast
      moreover have "\<forall>x \<in> set ps. brk st \<le> x"
        using ps by blast
      ultimately show ?thesis
        by fastforce
    qed
    show "set (Impl_eval i) \<inter> set (Impl_eval i') = {}"
    proof (cases "q = a"; cases "q' = a")
      assume "q = a" "q' = a"
      with ne show ?thesis by simp
    next
      assume "q = a" "q' \<noteq> a"
      with i i' have "Impl_eval i = ps" "impl_at st q' = Some i'"
        by (auto simp: im2)
      then show ?thesis
        using apart by simp
    next
      assume "q \<noteq> a" "q' = a"
      with i i' have "Impl_eval i' = ps" "impl_at st q = Some i"
        by (auto simp: im2)
      then show ?thesis
        using apart by (simp add: Int_commute)
    next
      assume "q \<noteq> a" "q' \<noteq> a"
      with i i' have "impl_at st q = Some i" "impl_at st q' = Some i'"
        by (simp_all add: im2)
      then show ?thesis
        using ne by (rule wf_disjointD [OF wf])
    qed
  next
    fix q
    assume "pvxo_at st2 q \<noteq> None"
    then show "q < brk st2"
      using top [of q] by (simp add: pv2 bk2)
  qed
qed

lemma fresh_impl_view:
  assumes wf: "wf_store st" and oi: "oil_at st2 = oil_at st"
    and frame: "\<And>q. impl_at st q \<noteq> None \<Longrightarrow> impl_view st2 q = impl_view st q"
  shows "Oil_view st2 y = Oil_view st y"
proof (cases "oil_at st y")
  case None
  then show ?thesis
    by (simp add: Oil_view_alt oi)
next
  case (Some h)
  show ?thesis
  proof (cases "Oil_pImpl h")
    case None
    with Some show ?thesis
      by (simp add: Oil_view_alt oi)
  next
    case (Some q)
    with \<open>oil_at st y = Some h\<close> have "impl_at st q \<noteq> None"
      using wf_ownedD [OF wf] by blast
    then show ?thesis
      using frame Some \<open>oil_at st y = Some h\<close> by (simp add: Oil_view_alt oi)
  qed
qed

lemma Oil_impl_Inr:
  "Oil_impl st x = Inr i \<longleftrightarrow>
     (\<exists>h p. oil_at st x = Some h \<and> Oil_pImpl h = Some p \<and> impl_at st p = Some i)"
  by (auto simp: Oil_impl_def split: option.splits)

lemma Oil_view_of_impl:
  "oil_at st x = Some h \<Longrightarrow> Oil_pImpl h = Some p \<Longrightarrow> Oil_view st x = impl_view st p"
  by (simp add: Oil_view_alt)

text \<open>Copying a catalogue and placing the copy in the store.\<close>

lemma copy_core:
  assumes wf: "wf_store st" and p: "impl_at st p = Some i"
    and c: "Impl_copy_ctor st i = Inr (st1, j)" and n: "new_impl st1 j = (st2, a)"
  shows "wf_store st2" and "oil_at st2 = oil_at st" and "unowned st2 a"
    and "impl_at st2 a \<noteq> None" and "impl_view st2 a = impl_view st p"
    and "\<And>y. Oil_view st2 y = Oil_view st y"
    and "\<And>y. impl_view (set_pImpl st2 y (Some a)) a = impl_view st p"
proof -
  from c obtain ps where
    cl: "clone st (Impl_eval i) = Inr (st1, ps)" and
    j: "j = \<lparr> Impl_eval = ps, Impl_rhoS = Impl_rhoS i \<rparr>"
    by (auto simp: Impl_copy_ctor_def split: sum.splits)
  have below: "\<forall>q \<in> set (Impl_eval i). q < brk st"
    using wf_implD [OF wf p] wf_pvxoD [OF wf] by blast
  note eff = clone_effect [OF cl below]
  have top: "q < brk st1" if "pvxo_at st1 q \<noteq> None" for q
  proof (rule ccontr)
    assume "\<not> q < brk st1"
    then have "brk st1 \<le> q"
      by simp
    with eff that have "pvxo_at st q \<noteq> None" "brk st \<le> q"
      by auto
    then show False
      using wf_pvxoD [OF wf, of q] by simp
  qed
  have ps: "brk st \<le> q \<and> pvxo_at st1 q \<noteq> None" if "q \<in> set ps" for q
    using eff that by auto
  have im: "impl_at st1 = impl_at st" and oi: "oil_at st1 = oil_at st"
    and bk: "brk st \<le> brk st1"
    and old: "\<And>q. q < brk st \<Longrightarrow> pvxo_at st1 q = pvxo_at st q"
    using eff by auto
  note fr = fresh_impl [OF wf im oi bk old top ps n [unfolded j]]
  show "wf_store st2"
    by (rule fr(1))
  show oi2: "oil_at st2 = oil_at st"
    by (rule fr(2))
  show "unowned st2 a"
    by (rule fr(3))
  show "impl_at st2 a \<noteq> None"
    by (rule fr(4))
  have "impl_view st2 a = Inr (map (pvxo_at st1) ps, Impl_rhoS i)"
    by (rule fr(5))
  also have "\<dots> = impl_view st p"
  proof -
    have "map (pvxo_at st1) ps = map (pvxo_at st) (Impl_eval i)"
      using eff by blast
    then show ?thesis
      using p by (simp add: impl_view_def)
  qed
  finally show copy: "impl_view st2 a = impl_view st p" .
  have frame: "impl_view st2 q = impl_view st q" if "impl_at st q \<noteq> None" for q
    by (rule fresh_impl(6) [OF wf im oi bk old top ps n [unfolded j] that])
  show "Oil_view st2 y = Oil_view st y" for y
    using wf oi2 frame by (rule fresh_impl_view)
  show "impl_view (set_pImpl st2 y (Some a)) a = impl_view st p" for y
    using copy by (simp add: impl_view_set_pImpl)
qed

lemma Oil_copy_ctor_spec:
  assumes wf: "wf_store st" and op: "Oil_copy_ctor st this rhs = Inr st'"
  shows "wf_store st'" and "Oil_view st' this = Oil_view st rhs"
    and "\<And>y. y \<noteq> this \<Longrightarrow> Oil_view st' y = Oil_view st y"
proof -
  from op obtain i st1 j st2 a where
    i: "Oil_impl st rhs = Inr i" and
    c: "Impl_copy_ctor st i = Inr (st1, j)" and
    n: "new_impl st1 j = (st2, a)" and
    st': "st' = set_pImpl st2 this (Some a)"
    by (auto simp: Oil_copy_ctor_def set_pImpl_def split: sum.splits prod.splits)
  from i obtain h p where
    h: "oil_at st rhs = Some h" "Oil_pImpl h = Some p" "impl_at st p = Some i"
    by (auto simp: Oil_impl_Inr)
  note core = copy_core [OF wf h(3) c n]
  show "wf_store st'"
    unfolding st'
    using core(1,3,4) by (intro set_pImpl_wf) (auto simp: unowned_def)
  show "Oil_view st' this = Oil_view st rhs"
    using core(5) Oil_view_of_impl [OF h(1,2)] by (simp add: st' set_pImpl_view)
  show "Oil_view st' y = Oil_view st y" if "y \<noteq> this" for y
    using that core(6) by (simp add: st' set_pImpl_view)
qed

lemma pImpl_reset_spec:
  assumes wf: "wf_store st"
    and new: "\<And>a. p = Some a \<Longrightarrow> impl_at st a \<noteq> None \<and> unowned st a"
    and op: "pImpl_reset st this p = Inr st'"
  shows "wf_store st'"
    and "Oil_view st' this
           = (case p of None \<Rightarrow> Inl undefined_behaviour | Some a \<Rightarrow> impl_view st a)"
    and "\<And>y. y \<noteq> this \<Longrightarrow> Oil_view st' y = Oil_view st y"
proof -
  let ?st1 = "set_pImpl st this p"
  from op obtain h where h: "oil_at st this = Some h"
    by (auto simp: pImpl_reset_def split: option.splits)
  have wf1: "wf_store ?st1"
    using wf new by (intro set_pImpl_wf) (auto simp: unowned_def)
  show "wf_store st'"
    and "Oil_view st' this
           = (case p of None \<Rightarrow> Inl undefined_behaviour | Some a \<Rightarrow> impl_view st a)"
    and "\<And>y. y \<noteq> this \<Longrightarrow> Oil_view st' y = Oil_view st y"
  proof (atomize (full), cases "Oil_pImpl h")
    case None
    with op h have "st' = ?st1"
      by (simp add: pImpl_reset_def set_pImpl_def Let_def)
    then show "wf_store st' \<and>
      Oil_view st' this = (case p of None \<Rightarrow> Inl undefined_behaviour | Some a \<Rightarrow> impl_view st a) \<and>
      (\<forall>y. y \<noteq> this \<longrightarrow> Oil_view st' y = Oil_view st y)"
      using wf1 by (simp add: set_pImpl_view)
  next
    case (Some old)
    with op h have del: "delete_impl ?st1 old = Inr st'"
      by (simp add: pImpl_reset_def set_pImpl_def Let_def)
    have un: "unowned ?st1 old"
      unfolding unowned_def
    proof (intro allI impI)
      fix x oil
      assume x: "oil_at ?st1 x = Some oil"
      show "Oil_pImpl oil \<noteq> Some old"
      proof (cases "x = this")
        case True
        with x have "Oil_pImpl oil = p"
          by (auto simp: set_pImpl_simps)
        moreover have "p \<noteq> Some old"
          using new [of old] h Some by (auto simp: unowned_def)
        ultimately show ?thesis by simp
      next
        case False
        with x have "oil_at st x = Some oil"
          by (simp add: set_pImpl_simps)
        then show ?thesis
          using wf_ownerD [OF wf _ h _ Some] False by blast
      qed
    qed
    have views: "Oil_view st' y = Oil_view ?st1 y" for y
      using wf1 del un by (intro delete_impl_view) (auto simp: unowned_def)
    show "wf_store st' \<and>
      Oil_view st' this = (case p of None \<Rightarrow> Inl undefined_behaviour | Some a \<Rightarrow> impl_view st a) \<and>
      (\<forall>y. y \<noteq> this \<longrightarrow> Oil_view st' y = Oil_view st y)"
      using delete_impl_wf [OF wf1 un del] by (simp add: views set_pImpl_view)
  qed
qed

lemma Oil_copy_assign_spec:
  assumes wf: "wf_store st" and op: "Oil_copy_assign st this rhs = Inr st'"
  shows "wf_store st'" and "Oil_view st' this = Oil_view st rhs"
    and "\<And>y. y \<noteq> this \<Longrightarrow> Oil_view st' y = Oil_view st y"
proof -
  from op obtain i st1 j st2 a where
    i: "Oil_impl st rhs = Inr i" and
    c: "Impl_copy_ctor st i = Inr (st1, j)" and
    n: "new_impl st1 j = (st2, a)" and
    r: "pImpl_reset st2 this (Some a) = Inr st'"
    by (auto simp: Oil_copy_assign_def split: sum.splits prod.splits)
  from i obtain h p where
    h: "oil_at st rhs = Some h" "Oil_pImpl h = Some p" "impl_at st p = Some i"
    by (auto simp: Oil_impl_Inr)
  note core = copy_core [OF wf h(3) c n]
  show "wf_store st'"
    by (rule pImpl_reset_spec(1) [OF core(1) _ r]) (use core(3,4) in simp)
  have "Oil_view st' this = impl_view st2 a"
    using pImpl_reset_spec(2) [OF core(1) _ r] core(3,4) by simp
  then show "Oil_view st' this = Oil_view st rhs"
    using core(5) Oil_view_of_impl [OF h(1,2)] by simp
  show "Oil_view st' y = Oil_view st y" if "y \<noteq> this" for y
  proof -
    have "Oil_view st' y = Oil_view st2 y"
      by (rule pImpl_reset_spec(3) [OF core(1) _ r that]) (use core(3,4) in simp)
    then show ?thesis
      using core(6) by simp
  qed
qed

lemma null_handle_wf: "wf_store st \<Longrightarrow> wf_store (set_pImpl st x None)"
  by (rule set_pImpl_wf) simp_all

lemma released_unowned:
  assumes wf: "wf_store st" and h: "oil_at st x = Some h" and a: "Oil_pImpl h = Some a"
  shows "unowned (set_pImpl st x None) a"
  unfolding unowned_def
proof (intro allI impI)
  fix y oil
  assume y: "oil_at (set_pImpl st x None) y = Some oil"
  show "Oil_pImpl oil \<noteq> Some a"
  proof (cases "y = x")
    case True
    with y show ?thesis
      by (auto simp: set_pImpl_simps)
  next
    case False
    with y have "oil_at st y = Some oil"
      by (simp add: set_pImpl_simps)
    then show ?thesis
      using wf_ownerD [OF wf _ h _ a] False by blast
  qed
qed

lemma Oil_move_ctor_spec:
  assumes wf: "wf_store st" and op: "Oil_move_ctor st this rhs = Inr st'"
  shows "wf_store st'"
    and "\<And>y. y \<noteq> this \<Longrightarrow> y \<noteq> rhs \<Longrightarrow> Oil_view st' y = Oil_view st y"
proof -
  from op obtain h where h: "oil_at st rhs = Some h"
    by (auto simp: Oil_move_ctor_def split: option.splits)
  have st': "st' = set_pImpl (set_pImpl st rhs None) this (Oil_pImpl h)"
    using op h by (cases h) (auto simp: Oil_move_ctor_def set_pImpl_def)
  let ?st0 = "set_pImpl st rhs None"
  have wf0: "wf_store ?st0"
    using wf by (rule null_handle_wf)
  show "wf_store st'"
    unfolding st'
  proof (rule set_pImpl_wf [OF wf0])
    fix a
    assume "Oil_pImpl h = Some a"
    then show "impl_at ?st0 a \<noteq> None"
      using wf_ownedD [OF wf h] by (simp add: set_pImpl_simps)
  next
    fix a y oil
    assume "Oil_pImpl h = Some a" "oil_at ?st0 y = Some oil"
    then show "Oil_pImpl oil \<noteq> Some a"
      using released_unowned [OF wf h] by (auto simp: unowned_def)
  qed
  show "Oil_view st' y = Oil_view st y" if "y \<noteq> this" "y \<noteq> rhs" for y
    using that by (simp add: st' set_pImpl_view)
qed

lemma Oil_move_assign_spec:
  assumes wf: "wf_store st" and op: "Oil_move_assign st this rhs = Inr st'"
  shows "wf_store st'"
    and "\<And>y. y \<noteq> this \<Longrightarrow> y \<noteq> rhs \<Longrightarrow> Oil_view st' y = Oil_view st y"
proof -
  let ?st0 = "set_pImpl st rhs None"
  from op obtain h where h: "oil_at st rhs = Some h"
    and r: "pImpl_reset ?st0 this (Oil_pImpl h) = Inr st'"
    by (auto simp: Oil_move_assign_def set_pImpl_def split: option.splits)
  have wf0: "wf_store ?st0"
    using wf by (rule null_handle_wf)
  have new: "impl_at ?st0 a \<noteq> None \<and> unowned ?st0 a" if "Oil_pImpl h = Some a" for a
    using that wf_ownedD [OF wf h that] released_unowned [OF wf h that]
    by (simp add: set_pImpl_simps)
  show "wf_store st'"
    using wf0 new r by (rule pImpl_reset_spec(1))
  show "Oil_view st' y = Oil_view st y" if "y \<noteq> this" "y \<noteq> rhs" for y
  proof -
    have "Oil_view st' y = Oil_view ?st0 y"
      using wf0 new r that(1) by (rule pImpl_reset_spec(3))
    then show ?thesis
      using that(2) by (simp add: set_pImpl_view)
  qed
qed

lemma drop_handle_simps:
  "pvxo_at (drop_handle st x) = pvxo_at st"
  "impl_at (drop_handle st x) = impl_at st"
  "brk (drop_handle st x) = brk st"
  "oil_at (drop_handle st x) = (oil_at st)(x := None)"
  by (simp_all add: drop_handle_def)

lemma drop_handle_wf:
  assumes wf: "wf_store st"
  shows "wf_store (drop_handle st x)"
proof (rule wf_storeI)
  fix a oil q
  assume "oil_at (drop_handle st x) a = Some oil" "Oil_pImpl oil = Some q"
  then show "impl_at (drop_handle st x) q \<noteq> None"
    using wf_ownedD [OF wf, of a oil q] by (simp add: drop_handle_simps split: if_splits)
next
  fix a b oil oil' q
  assume "oil_at (drop_handle st x) a = Some oil" "oil_at (drop_handle st x) b = Some oil'"
    "Oil_pImpl oil = Some q" "Oil_pImpl oil' = Some q"
  then show "a = b"
    using wf_ownerD [OF wf, of a oil b oil' q] by (simp add: drop_handle_simps split: if_splits)
next
  fix q i
  assume "impl_at (drop_handle st x) q = Some i"
  then show "q < brk (drop_handle st x)"
    using wf_implD [OF wf, of q i] by (simp add: drop_handle_simps)
next
  fix q i r
  assume "impl_at (drop_handle st x) q = Some i" "r \<in> set (Impl_eval i)"
  then show "pvxo_at (drop_handle st x) r \<noteq> None"
    using wf_implD [OF wf, of q i] by (simp add: drop_handle_simps)
next
  fix q q' i i'
  assume "impl_at (drop_handle st x) q = Some i" "impl_at (drop_handle st x) q' = Some i'"
    "q \<noteq> q'"
  then show "set (Impl_eval i) \<inter> set (Impl_eval i') = {}"
    using wf_disjointD [OF wf, of q i q' i'] by (simp add: drop_handle_simps)
next
  fix q
  assume "pvxo_at (drop_handle st x) q \<noteq> None"
  then show "q < brk (drop_handle st x)"
    using wf_pvxoD [OF wf, of q] by (simp add: drop_handle_simps)
qed

lemma drop_handle_view: "y \<noteq> x \<Longrightarrow> Oil_view (drop_handle st x) y = Oil_view st y"
  by (simp add: Oil_view_alt drop_handle_simps impl_view_def split: option.splits)

lemma delete_impl_drop_handle:
  "delete_impl st a = Inr st1 \<Longrightarrow>
   delete_impl (drop_handle st x) a = Inr (st1\<lparr> oil_at := (oil_at st1)(x := None) \<rparr>)"
proof -
  assume "delete_impl st a = Inr st1"
  then obtain i where i: "impl_at st a = Some i" "Impl_eval i = []"
    and st1: "st1 = st\<lparr> impl_at := (impl_at st)(a := None) \<rparr>"
    by (auto simp: delete_impl_eq split: option.splits if_splits)
  have "impl_at (drop_handle st x) = impl_at st"
    by (simp add: drop_handle_def)
  then have "delete_impl (drop_handle st x) a =
               Inr (drop_handle st x\<lparr> impl_at := (impl_at st)(a := None) \<rparr>)"
    using i by (simp add: delete_impl_eq)
  also have "drop_handle st x\<lparr> impl_at := (impl_at st)(a := None) \<rparr>
             = st1\<lparr> oil_at := (oil_at st1)(x := None) \<rparr>"
    by (simp add: st1 drop_handle_def)
  finally show ?thesis .
qed

lemma Oil_dtor_spec:
  assumes wf: "wf_store st" and op: "Oil_dtor st this = Inr st'"
  shows "wf_store st'"
    and "\<And>y. y \<noteq> this \<Longrightarrow> Oil_view st' y = Oil_view st y"
proof -
  from op obtain h where h: "oil_at st this = Some h"
    by (auto simp: Oil_dtor_def split: option.splits)
  have wf0: "wf_store (drop_handle st this)"
    using wf by (rule drop_handle_wf)
  show "wf_store st'" and "\<And>y. y \<noteq> this \<Longrightarrow> Oil_view st' y = Oil_view st y"
  proof (atomize (full), cases "Oil_pImpl h")
    case None
    with op h have "st' = drop_handle st this"
      by (simp add: Oil_dtor_def drop_handle_def)
    then show "wf_store st' \<and> (\<forall>y. y \<noteq> this \<longrightarrow> Oil_view st' y = Oil_view st y)"
      using wf0 by (simp add: drop_handle_view)
  next
    case (Some a)
    with op h obtain st1 where
      d: "delete_impl st a = Inr st1" and
      st': "st' = st1\<lparr> oil_at := (oil_at st1)(this := None) \<rparr>"
      by (auto simp: Oil_dtor_def split: sum.splits)
    have del: "delete_impl (drop_handle st this) a = Inr st'"
      unfolding st' using d by (rule delete_impl_drop_handle)
    have un: "unowned (drop_handle st this) a"
      unfolding unowned_def
    proof (intro allI impI)
      fix y oil
      assume y: "oil_at (drop_handle st this) y = Some oil"
      then have "y \<noteq> this" "oil_at st y = Some oil"
        by (auto simp: drop_handle_simps split: if_splits)
      then show "Oil_pImpl oil \<noteq> Some a"
        using wf_ownerD [OF wf _ h _ Some] by blast
    qed
    have "Oil_view st' y = Oil_view (drop_handle st this) y" for y
      using wf0 del un by (intro delete_impl_view) (auto simp: unowned_def)
    then show "wf_store st' \<and> (\<forall>y. y \<noteq> this \<longrightarrow> Oil_view st' y = Oil_view st y)"
      using delete_impl_wf [OF wf0 un del] by (simp add: drop_handle_view)
  qed
qed

lemma apply_op_wf:
  "wf_store st \<Longrightarrow> apply_op st x = Inr st' \<Longrightarrow> wf_store st'"
  by (cases x)
     (auto intro: Oil_copy_ctor_spec(1) Oil_move_ctor_spec(1) Oil_copy_assign_spec(1)
        Oil_move_assign_spec(1) Oil_dtor_spec(1))

lemma apply_op_frame:
  "wf_store st \<Longrightarrow> apply_op st x = Inr st' \<Longrightarrow> y \<notin> touched x \<Longrightarrow>
   Oil_view st' y = Oil_view st y"
  by (cases x)
     (auto intro: Oil_copy_ctor_spec(3) Oil_move_ctor_spec(2) Oil_copy_assign_spec(3)
        Oil_move_assign_spec(2) Oil_dtor_spec(2))

lemma apply_ops_frame:
  "wf_store st \<Longrightarrow> apply_ops st xs = Inr st' \<Longrightarrow> y \<notin> \<Union> (touched ` set xs) \<Longrightarrow>
   wf_store st' \<and> Oil_view st' y = Oil_view st y"
proof (induction xs arbitrary: st)
  case Nil
  then show ?case by simp
next
  case (Cons x xs)
  from Cons.prems(2) obtain st1 where
    x: "apply_op st x = Inr st1" and xs: "apply_ops st1 xs = Inr st'"
    by (auto split: sum.splits)
  have wf1: "wf_store st1"
    using Cons.prems(1) x by (rule apply_op_wf)
  have "Oil_view st1 y = Oil_view st y"
    using Cons.prems(1) x Cons.prems(3) by (intro apply_op_frame) auto
  moreover have "wf_store st' \<and> Oil_view st' y = Oil_view st1 y"
    using wf1 xs Cons.prems(3) by (intro Cons.IH) auto
  ultimately show ?case
    by simp
qed

lemma new_pvxos_effect:
  assumes "new_pvxos st ms = (st1, ps)"
  shows "impl_at st1 = impl_at st \<and> oil_at st1 = oil_at st
         \<and> brk st1 = brk st + length ms
         \<and> (\<forall>q. q < brk st \<longrightarrow> pvxo_at st1 q = pvxo_at st q)
         \<and> (\<forall>q. brk st1 \<le> q \<longrightarrow> pvxo_at st1 q = pvxo_at st q)
         \<and> ps = [brk st ..< brk st + length ms]
         \<and> map (pvxo_at st1) ps = map Some ms"
  using assms
proof (induction ms arbitrary: st st1 ps)
  case Nil
  then show ?case by simp
next
  case (Cons m ms)
  let ?st0 = "st\<lparr> pvxo_at := (pvxo_at st)(brk st \<mapsto> m), brk := Suc (brk st) \<rparr>"
  from Cons.prems obtain ps' where
    r: "new_pvxos ?st0 ms = (st1, ps')" and
    d: "ps = brk st # ps'"
    by (auto simp: new_pvxo_def split: prod.splits)
  note ih = Cons.IH [OF r]
  have "pvxo_at st1 (brk st) = Some m"
    using ih by simp
  moreover have "[brk st ..< brk st + length (m # ms)] = brk st # [brk ?st0 ..< brk ?st0 + length ms]"
    by (simp add: upt_conv_Cons del: upt_Suc)
  ultimately show ?case
    using ih d by auto
qed

lemma wf_store_empty: "wf_store empty_store"
  by (simp add: wf_store_def empty_store_def)

lemma Oil_ctor_spec:
  assumes wf: "wf_store st" and op: "Oil_ctor ext st this raw usys rhoS = Inr st'"
  shows "wf_store st'"
    and "\<And>y. y \<noteq> this \<Longrightarrow> Oil_view st' y = Oil_view st y"
    and "\<exists>ms. createPVTFunction ext raw usys = Inr ms \<and> Oil_view st' this = Inr (map Some ms, rhoS)"
proof -
  from op obtain ms st1 ps st2 a where
    ms: "createPVTFunction ext raw usys = Inr ms" and
    np: "new_pvxos st ms = (st1, ps)" and
    n: "new_impl st1 \<lparr> Impl_eval = ps, Impl_rhoS = rhoS \<rparr> = (st2, a)" and
    st': "st' = set_pImpl st2 this (Some a)"
    by (auto simp: Oil_ctor_def Impl_ctor_def set_pImpl_def split: sum.splits prod.splits)
  note eff = new_pvxos_effect [OF np]
  have im: "impl_at st1 = impl_at st" and oi: "oil_at st1 = oil_at st"
    and bk: "brk st \<le> brk st1"
    and old: "\<And>q. q < brk st \<Longrightarrow> pvxo_at st1 q = pvxo_at st q"
    using eff by auto
  have top: "q < brk st1" if "pvxo_at st1 q \<noteq> None" for q
  proof (rule ccontr)
    assume "\<not> q < brk st1"
    then have "brk st1 \<le> q"
      by simp
    with eff that have "pvxo_at st q \<noteq> None" "brk st \<le> q"
      by auto
    then show False
      using wf_pvxoD [OF wf, of q] by simp
  qed
  have new: "map (pvxo_at st1) ps = map Some ms"
    using eff by blast
  have ps: "brk st \<le> q \<and> pvxo_at st1 q \<noteq> None" if "q \<in> set ps" for q
  proof -
    from that obtain k where k: "k < length ps" "ps ! k = q"
      by (auto simp: in_set_conv_nth)
    then have "pvxo_at st1 q = Some (ms ! k)"
      using new by (metis length_map nth_map)
    moreover have "brk st \<le> q"
      using eff that by auto
    ultimately show ?thesis
      by simp
  qed
  note fr = fresh_impl [OF wf im oi bk old top ps n]
  show "wf_store st'"
    unfolding st'
    using fr(1,3,4) by (intro set_pImpl_wf) (auto simp: unowned_def)
  have frame: "impl_view st2 q = impl_view st q" if "impl_at st q \<noteq> None" for q
    by (rule fresh_impl(6) [OF wf im oi bk old top ps n that])
  have views: "Oil_view st2 y = Oil_view st y" for y
    using wf fr(2) frame by (rule fresh_impl_view)
  show "Oil_view st' y = Oil_view st y" if "y \<noteq> this" for y
    using that views by (simp add: st' set_pImpl_view)
  have "Oil_view st' this = Inr (map Some ms, rhoS)"
    using fr(5) new by (simp add: st' set_pImpl_view impl_view_set_pImpl)
  with ms show "\<exists>ms. createPVTFunction ext raw usys = Inr ms
                  \<and> Oil_view st' this = Inr (map Some ms, rhoS)"
    by blast
qed

text \<open>
  A copy that succeeded answers as its source, and operations that succeed leave the
  handles alone that they do not touch: in a store with sound ownership, let \<open>b\<close> have been
  made a copy of the handle \<open>a\<close>. Then every query on \<open>b\<close> answers as the same query on \<open>a\<close>
  did before, and as it does on \<open>a\<close> now; after any further sequence of copies, moves and
  destructions that succeeds and has neither handle as its target or as the source of a
  move, both still answer so. Stores with sound ownership are those that the constructors
  and these operations produce from the empty store (\<open>wf_store_empty\<close>, \<open>Oil_ctor_spec\<close>,
  \<open>apply_op_wf\<close>).
\<close>

lemma successful_copy_answers_alike:
  assumes wf: "wf_store st"
    and copy: "Oil_copy_ctor st b a = Inr st1 \<or> Oil_copy_assign st b a = Inr st1"
  shows "same_answers ext st1 b st a
       \<and> same_answers ext st1 a st a
       \<and> (\<forall>xs st2. apply_ops st1 xs = Inr st2 \<and> a \<notin> \<Union> (touched ` set xs)
             \<longrightarrow> same_answers ext st2 a st a)
       \<and> (\<forall>xs st2. apply_ops st1 xs = Inr st2 \<and> b \<notin> \<Union> (touched ` set xs)
             \<longrightarrow> same_answers ext st2 b st a)"
proof -
  have wf1: "wf_store st1"
    and vb: "Oil_view st1 b = Oil_view st a"
    and other: "\<And>y. y \<noteq> b \<Longrightarrow> Oil_view st1 y = Oil_view st y"
    using copy Oil_copy_ctor_spec [OF wf] Oil_copy_assign_spec [OF wf] by blast+
  have va: "Oil_view st1 a = Oil_view st a"
    using vb other by (cases "a = b") simp_all
  have later: "Oil_view st2 y = Oil_view st1 y"
    if "apply_ops st1 xs = Inr st2" "y \<notin> \<Union> (touched ` set xs)" for xs st2 y
    using apply_ops_frame [OF wf1 that] by simp
  show ?thesis
    using va vb later by (auto intro!: same_view_same_answers)
qed

text \<open>
  Copy construction does succeed: the evaluators of a catalogue in a store with sound
  ownership are alive, so each of them is cloned, and the new handle reaches a catalogue
  of its own whose evaluators are alive and equal to those of the source, with the same
  densities.
\<close>

lemma PVxO_clone_alive:
  "pvxo_at st p = Some m \<Longrightarrow> PVxO_clone st p = Inr (new_pvxo st m)"
  by (cases m) (simp_all add: PVxO_clone_def)

lemma clone_succeeds:
  "\<forall>p \<in> set src. p < brk st \<and> pvxo_at st p \<noteq> None \<Longrightarrow> \<exists>st' dest. clone st src = Inr (st', dest)"
proof (induction src arbitrary: st)
  case Nil
  then show ?case by simp
next
  case (Cons p src)
  then obtain m where m: "pvxo_at st p = Some m"
    by auto
  let ?st1 = "st\<lparr> pvxo_at := (pvxo_at st)(brk st \<mapsto> m), brk := Suc (brk st) \<rparr>"
  have c: "PVxO_clone st p = Inr (?st1, brk st)"
    using PVxO_clone_alive [OF m] by (simp add: new_pvxo_def)
  have "\<forall>q \<in> set src. q < brk ?st1 \<and> pvxo_at ?st1 q \<noteq> None"
    using Cons.prems by auto
  from Cons.IH [OF this] obtain st' dest where "clone ?st1 src = Inr (st', dest)"
    by blast
  with c show ?case
    by simp
qed

lemma Impl_copy_ctor_succeeds:
  assumes wf: "wf_store st" and p: "impl_at st p = Some i"
  shows "\<exists>st1 j. Impl_copy_ctor st i = Inr (st1, j)"
proof -
  have "\<forall>q \<in> set (Impl_eval i). q < brk st \<and> pvxo_at st q \<noteq> None"
    using wf_implD [OF wf p] wf_pvxoD [OF wf] by blast
  from clone_succeeds [OF this] show ?thesis
    by (auto simp: Impl_copy_ctor_def)
qed

lemma Oil_copy_ctor_succeeds:
  assumes wf: "wf_store st" and i: "Oil_impl st a = Inr i"
  shows "\<exists>st1 j. Oil_copy_ctor st b a = Inr st1
           \<and> wf_store st1
           \<and> Oil_impl st1 b = Inr j
           \<and> Impl_rhoS j = Impl_rhoS i
           \<and> map (pvxo_at st1) (Impl_eval j) = map (pvxo_at st) (Impl_eval i)
           \<and> (\<forall>q \<in> set (Impl_eval j). pvxo_at st1 q \<noteq> None)
           \<and> (\<forall>y. y \<noteq> b \<longrightarrow> Oil_view st1 y = Oil_view st y)"
proof -
  from i obtain h p where
    h: "oil_at st a = Some h" "Oil_pImpl h = Some p" "impl_at st p = Some i"
    by (auto simp: Oil_impl_Inr)
  from Impl_copy_ctor_succeeds [OF wf h(3)] obtain st1 j where
    c: "Impl_copy_ctor st i = Inr (st1, j)"
    by blast
  obtain st2 n where n: "new_impl st1 j = (st2, n)"
    by (cases "new_impl st1 j")
  let ?st' = "st2\<lparr> oil_at := (oil_at st2)(b \<mapsto> \<lparr> Oil_pImpl = Some n \<rparr>) \<rparr>"
  have op: "Oil_copy_ctor st b a = Inr ?st'"
    by (simp add: Oil_copy_ctor_def i c n)
  note spec = Oil_copy_ctor_spec [OF wf op]
  have "Oil_view ?st' b = Oil_view st a"
    by (rule spec(2))
  also have "\<dots> = Inr (map (pvxo_at st) (Impl_eval i), Impl_rhoS i)"
    by (simp add: Oil_view_def i)
  finally obtain j' where
    j': "Oil_impl ?st' b = Inr j'"
    and same: "map (pvxo_at ?st') (Impl_eval j') = map (pvxo_at st) (Impl_eval i)"
              "Impl_rhoS j' = Impl_rhoS i"
    by (auto simp: Oil_view_def split: sum.splits)
  from j' obtain h' p' where
    h': "oil_at ?st' b = Some h'" "Oil_pImpl h' = Some p'" "impl_at ?st' p' = Some j'"
    by (auto simp: Oil_impl_Inr)
  have alive: "\<forall>q \<in> set (Impl_eval j'). pvxo_at ?st' q \<noteq> None"
    using wf_implD [OF spec(1) h'(3)] by blast
  show ?thesis
    using op spec(1) j' same alive spec(3) by blast
qed

text \<open>
  Assignment to a handle whose catalogue has evaluators, and the destruction of such a
  handle, delete these evaluators through \<open>PVxOBase\<close>.
\<close>

lemma pImpl_reset_over_regions:
  assumes "oil_at st this = Some h" and "Oil_pImpl h = Some old"
    and "impl_at st old = Some i" and "Impl_eval i \<noteq> []"
  shows "pImpl_reset st this p = Inl undefined_behaviour"
  using assms by (simp add: pImpl_reset_def Let_def delete_impl_eq)

lemma Oil_dtor_over_regions:
  assumes "Oil_impl st this = Inr i" and "Impl_eval i \<noteq> []"
  shows "Oil_dtor st this = Inl undefined_behaviour"
  using assms by (auto simp: Oil_impl_Inr Oil_dtor_def delete_impl_eq)

lemma Oil_move_assign_over_regions:
  assumes "Oil_impl st this = Inr i" and "Impl_eval i \<noteq> []"
    and "oil_at st rhs \<noteq> None" and "rhs \<noteq> this"
  shows "Oil_move_assign st this rhs = Inl undefined_behaviour"
proof -
  from assms(1) obtain h old where
    h: "oil_at st this = Some h" "Oil_pImpl h = Some old" "impl_at st old = Some i"
    by (auto simp: Oil_impl_Inr)
  from assms(3) obtain oil where oil: "oil_at st rhs = Some oil"
    by auto
  let ?st0 = "st\<lparr> oil_at := (oil_at st)(rhs \<mapsto> \<lparr> Oil_pImpl = None \<rparr>) \<rparr>"
  have "pImpl_reset ?st0 this (Oil_pImpl oil) = Inl undefined_behaviour"
    using h assms(2,4) by (intro pImpl_reset_over_regions [of _ _ h old i]) simp_all
  then show ?thesis
    by (simp add: Oil_move_assign_def oil)
qed

lemma Oil_copy_assign_over_regions:
  assumes wf: "wf_store st" and src: "Oil_impl st rhs = Inr k"
    and tgt: "Oil_impl st this = Inr i" and regions: "Impl_eval i \<noteq> []"
  shows "Oil_copy_assign st this rhs = Inl undefined_behaviour"
proof -
  from src obtain hs ps where
    hs: "oil_at st rhs = Some hs" "Oil_pImpl hs = Some ps" "impl_at st ps = Some k"
    by (auto simp: Oil_impl_Inr)
  from tgt obtain h old where
    h: "oil_at st this = Some h" "Oil_pImpl h = Some old" "impl_at st old = Some i"
    by (auto simp: Oil_impl_Inr)
  from Impl_copy_ctor_succeeds [OF wf hs(3)] obtain st1 j where
    c: "Impl_copy_ctor st k = Inr (st1, j)"
    by blast
  obtain st2 n where n: "new_impl st1 j = (st2, n)"
    by (cases "new_impl st1 j")
  note core = copy_core [OF wf hs(3) c n]
  have "impl_view st2 old = impl_view st old"
  proof -
    have "Oil_view st2 this = Oil_view st this"
      by (rule core(6))
    then show ?thesis
      using h core(2) by (simp add: Oil_view_alt)
  qed
  then obtain i' where old: "impl_at st2 old = Some i'"
    and evals: "map (pvxo_at st2) (Impl_eval i') = map (pvxo_at st) (Impl_eval i)"
    using h(3) by (auto simp: impl_view_def split: option.splits)
  from evals have "length (Impl_eval i') = length (Impl_eval i)"
    by (rule map_eq_imp_length_eq)
  with regions have "Impl_eval i' \<noteq> []"
    by auto
  note i' = old this
  have "pImpl_reset st2 this (Some n) = Inl undefined_behaviour"
    using h(1,2) i' core(2) by (intro pImpl_reset_over_regions [of _ _ h old i']) simp_all
  then show ?thesis
    by (simp add: Oil_copy_assign_def src c n)
qed

text \<open>
  Copy assignment to a handle that holds no catalogue, as a handle does after it has been
  moved from, deletes nothing and makes the handle a copy.
\<close>

lemma Oil_copy_assign_to_null:
  assumes wf: "wf_store st" and src: "Oil_impl st rhs = Inr k"
    and tgt: "oil_at st this = Some h" and null: "Oil_pImpl h = None"
  shows "\<exists>st'. Oil_copy_assign st this rhs = Inr st' \<and> same_answers ext st' this st rhs"
proof -
  from src obtain hs ps where
    hs: "oil_at st rhs = Some hs" "Oil_pImpl hs = Some ps" "impl_at st ps = Some k"
    by (auto simp: Oil_impl_Inr)
  from Impl_copy_ctor_succeeds [OF wf hs(3)] obtain st1 j where
    c: "Impl_copy_ctor st k = Inr (st1, j)"
    by blast
  obtain st2 n where n: "new_impl st1 j = (st2, n)"
    by (cases "new_impl st1 j")
  have "oil_at st2 this = Some h"
    using copy_core(2) [OF wf hs(3) c n] tgt by simp
  then have "\<exists>st'. pImpl_reset st2 this (Some n) = Inr st'"
    using null by (simp add: pImpl_reset_def Let_def)
  then obtain st' where op: "Oil_copy_assign st this rhs = Inr st'"
    by (auto simp: Oil_copy_assign_def src c n)
  have "Oil_view st' this = Oil_view st rhs"
    using wf op by (rule Oil_copy_assign_spec(2))
  then have "same_answers ext st' this st rhs"
    by (rule same_view_same_answers)
  with op show ?thesis
    by blast
qed

text \<open>
  Claim C6. Two handles are built from \<open>dead_table\<close>, the first with the density 850, the
  second with 900; each has a catalogue of one region and answers with its own density.
  Copy assignment of the first to the second builds the copy and then resets the owning
  pointer of the second, which destroys the catalogue that the second held: its evaluator
  is deleted through a pointer to \<open>PVxOBase\<close>, whose destructor is not virtual. The
  assignment has no defined behaviour, and so has every assignment to, and the destruction
  of, a handle whose catalogue has a region (\<open>Oil_copy_assign_over_regions\<close>,
  \<open>Oil_move_assign_over_regions\<close>, \<open>Oil_dtor_over_regions\<close>). Copy construction from the
  first handle succeeds and the new handle answers as the first
  (\<open>Oil_copy_ctor_succeeds\<close>, \<open>successful_copy_answers_alike\<close>), but it cannot be
  destroyed either.
\<close>

theorem Oil_copy_assign_deletes_through_base:
  "(case Oil_ctor sample_ext empty_store 0 dead_table 1 [Finite 850] of
      Inl e \<Rightarrow> False
    | Inr st0 \<Rightarrow>
        (case Oil_ctor sample_ext st0 1 dead_table 1 [Finite 900] of
           Inl e \<Rightarrow> False
         | Inr st \<Rightarrow>
             Oil_surfaceMassDensity st 0 0 = Inr (Finite 850)
             \<and> Oil_surfaceMassDensity st 1 0 = Inr (Finite 900)
             \<and> Oil_copy_assign st 1 0 = Inl undefined_behaviour
             \<and> Oil_move_assign st 1 0 = Inl undefined_behaviour
             \<and> Oil_dtor st 1 = Inl undefined_behaviour
             \<and> (case Oil_copy_ctor st 2 0 of
                  Inl e \<Rightarrow> False
                | Inr st' \<Rightarrow>
                    Oil_surfaceMassDensity st' 2 0 = Inr (Finite 850)
                    \<and> Oil_formationVolumeFactor sample_ext st' 2 0 [] [Finite 200]
                        = Oil_formationVolumeFactor sample_ext st 0 0 [] [Finite 200]
                    \<and> Oil_dtor st' 2 = Inl undefined_behaviour)))"
  by (simp add: Oil_ctor_def Impl_ctor_def createPVTFunction_dead_table empty_store_def
        Oil_surfaceMassDensity_def Impl_surfaceMassDensity_def validateRegIdx_def
        Oil_formationVolumeFactor_def Impl_formationVolumeFactor_def
        Oil_impl_def Oil_copy_assign_def Oil_copy_ctor_def Impl_copy_ctor_def
        PVxO_clone_def new_pvxo_def new_impl_def pImpl_reset_def Oil_move_assign_def
        Oil_dtor_def delete_impl_eq Let_def)

end
